theory Spec2Isabelle
  imports Main "HOL-Library.Extended_Nat" "HOL-Library.Sublist"
begin

section \<open>Values, messages and errors\<close>

text \<open>
  The JavaScript values that flow through \<^verbatim>\<open>Argument.js\<close>. \<open>Null\<close> and
  \<open>Undefined\<close> are the two void values (\<^verbatim>\<open>x == null\<close> holds of exactly these).
  \<open>Arr\<close> is an array that is never mutated after it is built (a tuple result);
  \<open>Ref a\<close> is a reference to a mutable array living at address \<open>a\<close> of the heap
  (the \<^verbatim>\<open>values\<close> array of an infinite prompt, which is shared with \<^verbatim>\<open>args\<close>).
  \<open>MatchResult m ms\<close> is the object \<^verbatim>\<open>{ match, matches }\<close> a regular expression yields.
\<close>

datatype jsval =
    Null
  | Undefined
  | Str string
  | Num int
  | Bool bool
  | Arr "jsval list"
  | Ref nat
  | MatchResult "string list" "string list list"

text \<open>
  Why an awaited call yields no value. The first four are what is thrown (a rejection
  of the promise). \<open>NeverReturns\<close> is not thrown: it stands, where \<^verbatim>\<open>process\<close> and
  \<^verbatim>\<open>collect\<close> await a cast, for a cast that does not return, so that the code after the
  \<^verbatim>\<open>await\<close> is never run. Nothing in \<^verbatim>\<open>Argument.js\<close> catches what a cast throws, so
  the two leave \<^verbatim>\<open>process\<close> and \<^verbatim>\<open>collect\<close> the same way.
\<close>

datatype error = TypeError | TransportFailure | TimeElapsed | CasterFailure | NeverReturns

record message =
  m_id :: nat
  m_author :: nat
  m_channel :: nat
  m_content :: string

type_synonym args = "string \<rightharpoonup> jsval"

text \<open>\<^verbatim>\<open>x == null\<close>: loose equality with null.\<close>

definition is_void :: "jsval \<Rightarrow> bool" where
  "is_void v = (v = Null \<or> v = Undefined)"

text \<open>JavaScript truthiness, as used by \<^verbatim>\<open>if (phrase)\<close>.\<close>

fun truthy :: "jsval \<Rightarrow> bool" where
  "truthy Null = False"
| "truthy Undefined = False"
| "truthy (Str s) = (s \<noteq> [])"
| "truthy (Num n) = (n \<noteq> 0)"
| "truthy (Bool b) = b"
| "truthy (Arr xs) = True"
| "truthy (Ref a) = True"
| "truthy (MatchResult m ms) = True"

subsection \<open>String helpers\<close>

text \<open>
  A \<open>char\<close> is a code unit below 256, so a \<open>string\<close> is a string of the characters
  U+0000 to U+00FF. On these, \<open>toLowerCase\<close> is \<^verbatim>\<open>String.prototype.toLowerCase\<close>: the
  letters with a lower case are A to Z, U+00C0 to U+00D6 and U+00D8 to U+00DE, and the
  lower case is 32 above. \<open>trim\<close> is \<^verbatim>\<open>String.prototype.trim\<close>: the white space and the
  line terminators below 256 are U+0009 to U+000D, U+0020 and U+00A0.
\<close>

definition lower_char :: "char \<Rightarrow> char" where
  "lower_char c =
     (case map_of (zip (''ABCDEFGHIJKLMNOPQRSTUVWXYZ''
                        @ [CHR 0xC0, CHR 0xC1, CHR 0xC2, CHR 0xC3, CHR 0xC4, CHR 0xC5,
                           CHR 0xC6, CHR 0xC7, CHR 0xC8, CHR 0xC9, CHR 0xCA, CHR 0xCB,
                           CHR 0xCC, CHR 0xCD, CHR 0xCE, CHR 0xCF, CHR 0xD0, CHR 0xD1,
                           CHR 0xD2, CHR 0xD3, CHR 0xD4, CHR 0xD5, CHR 0xD6, CHR 0xD8,
                           CHR 0xD9, CHR 0xDA, CHR 0xDB, CHR 0xDC, CHR 0xDD, CHR 0xDE])
                       (''abcdefghijklmnopqrstuvwxyz''
                        @ [CHR 0xE0, CHR 0xE1, CHR 0xE2, CHR 0xE3, CHR 0xE4, CHR 0xE5,
                           CHR 0xE6, CHR 0xE7, CHR 0xE8, CHR 0xE9, CHR 0xEA, CHR 0xEB,
                           CHR 0xEC, CHR 0xED, CHR 0xEE, CHR 0xEF, CHR 0xF0, CHR 0xF1,
                           CHR 0xF2, CHR 0xF3, CHR 0xF4, CHR 0xF5, CHR 0xF6, CHR 0xF8,
                           CHR 0xF9, CHR 0xFA, CHR 0xFB, CHR 0xFC, CHR 0xFD, CHR 0xFE])) c of
        Some l \<Rightarrow> l
      | None \<Rightarrow> c)"

definition toLowerCase :: "string \<Rightarrow> string" where
  "toLowerCase s = map lower_char s"

definition is_space :: "char \<Rightarrow> bool" where
  "is_space c =
     (c \<in> set [CHR 0x09, CHR 0x0A, CHR 0x0B, CHR 0x0C, CHR 0x0D, CHR 0x20, CHR 0xA0])"

definition trim :: "string \<Rightarrow> string" where
  "trim s = rev (dropWhile is_space (rev (dropWhile is_space s)))"

text \<open>
  \<^verbatim>\<open>phrase.toLowerCase()\<close> where \<^verbatim>\<open>phrase\<close> may be any value: only a string has the
  method, every other receiver raises a TypeError.
\<close>

fun val_toLowerCase :: "jsval \<Rightarrow> error + string" where
  "val_toLowerCase (Str s) = Inr (toLowerCase s)"
| "val_toLowerCase v = Inl TypeError"

section \<open>Type casting: \<^verbatim>\<open>Argument.cast\<close> and the combinators\<close>

text \<open>
  A call of a casting function with \<^verbatim>\<open>(phrase, message, args)\<close> returns a value
  (\<open>Some (Inr v)\<close>; for an \<^verbatim>\<open>async\<close> function, the value its promise resolves to), throws
  (\<open>Some (Inl e)\<close>), or does not return (\<open>None\<close>). The resolver
  (\<^verbatim>\<open>resolver.type(name)\<close>) is a lookup of registered casters that may find nothing.
\<close>

type_synonym caster = "jsval \<Rightarrow> message \<Rightarrow> args \<Rightarrow> (error + jsval) option"
type_synonym resolver = "string \<Rightarrow> caster option"

text \<open>
  The receiver (\<^verbatim>\<open>this\<close>) of a casting function. The combinators read only
  \<^verbatim>\<open>this.handler.resolver\<close> from it, so a receiver is \<open>Some r\<close> for an argument whose
  handler has the resolver \<open>r\<close>, and \<open>None\<close> when \<^verbatim>\<open>this\<close> is undefined, which is what a
  plain call \<^verbatim>\<open>type(phrase, message, args)\<close> of an unbound function gives in the strict
  code of a class body.
\<close>

type_synonym receiver = "resolver option"

text \<open>
  A regular expression without the sticky flag, by what the engine answers. \<open>rx_match\<close>
  is \<^verbatim>\<open>phrase.match(type)\<close>, which leaves \<^verbatim>\<open>lastIndex\<close> at 0 when the expression is
  global, and \<open>rx_global\<close> is the \<^verbatim>\<open>global\<close> flag. \<open>rx_exec s i\<close> is \<^verbatim>\<open>type.exec(phrase)\<close>
  on a global expression whose \<^verbatim>\<open>lastIndex\<close> is \<open>i\<close>: \<open>None\<close> for \<^verbatim>\<open>null\<close> (and
  \<^verbatim>\<open>lastIndex\<close> is 0 again), or the match together with the new \<^verbatim>\<open>lastIndex\<close>, the
  index at which the match ends. A match of the empty string at \<open>i\<close> leaves
  \<^verbatim>\<open>lastIndex\<close> at \<open>i\<close>.
\<close>

record regex =
  rx_match :: "string \<Rightarrow> string list option"
  rx_global :: bool
  rx_exec :: "string \<Rightarrow> nat \<Rightarrow> (string list \<times> nat) option"

text \<open>An entry of an enumeration: one string, or an alias group (an inner array).\<close>

datatype entry = Single string | Group "string list"

text \<open>
  What \<^verbatim>\<open>Argument.cast\<close> dispatches on: an array, a function, a RegExp, or anything
  else (a name looked up in the resolver).
\<close>

datatype typespec =
    Enumeration "entry list"
  | Fn "receiver \<Rightarrow> caster"
  | Pattern regex
  | Named string

text \<open>\<^verbatim>\<open>entry.some(t => t.toLowerCase() === phrase.toLowerCase())\<close>\<close>

fun some_matches :: "string list \<Rightarrow> jsval \<Rightarrow> error + bool" where
  "some_matches [] phrase = Inr False"
| "some_matches (t # ts) phrase =
     (case val_toLowerCase phrase of
        Inl e \<Rightarrow> Inl e
      | Inr p \<Rightarrow> if toLowerCase t = p then Inr True else some_matches ts phrase)"

text \<open>\<^verbatim>\<open>entry[0]\<close>\<close>

fun first_of :: "string list \<Rightarrow> jsval" where
  "first_of [] = Undefined"
| "first_of (t # ts) = Str t"

text \<open>The loop over the entries of an array type (lines 326-336).\<close>

fun cast_entries :: "entry list \<Rightarrow> jsval \<Rightarrow> error + jsval" where
  "cast_entries [] phrase = Inr Null"
| "cast_entries (Group g # es) phrase =
     (case some_matches g phrase of
        Inl e \<Rightarrow> Inl e
      | Inr found \<Rightarrow> if found then Inr (first_of g) else cast_entries es phrase)"
| "cast_entries (Single s # es) phrase =
     (case val_toLowerCase phrase of
        Inl e \<Rightarrow> Inl e
      | Inr p \<Rightarrow> if toLowerCase s = p then Inr (Str s) else cast_entries es phrase)"

text \<open>
  \<^verbatim>\<open>if (res != null) return res; return null;\<close> after a caster was called (lines
  341-344 and 364-367): nothing more happens when the caster threw or did not return.
\<close>

definition non_void_or_null :: "(error + jsval) option \<Rightarrow> (error + jsval) option" where
  "non_void_or_null r =
     (case r of
        None \<Rightarrow> None
      | Some (Inl e) \<Rightarrow> Some (Inl e)
      | Some (Inr res) \<Rightarrow> if \<not> is_void res then Some (Inr res) else Some (Inr Null))"

text \<open>
  The loop of lines 355-357,
  \<^verbatim>\<open>while ((matched = type.exec(phrase)) != null) matches.push(matched)\<close>, from the
  \<^verbatim>\<open>lastIndex\<close> and the \<^verbatim>\<open>matches\<close> it has reached. It ends when \<^verbatim>\<open>exec\<close> answers
  \<^verbatim>\<open>null\<close>; \<open>None\<close> is the loop that does not end.
\<close>

partial_function (option) exec_loop ::
  "regex \<Rightarrow> string \<Rightarrow> nat \<Rightarrow> string list list \<Rightarrow> string list list option" where
  "exec_loop rx s lastIndex matches =
     (case rx_exec rx s lastIndex of
        None \<Rightarrow> Some matches
      | Some (matched, i) \<Rightarrow> exec_loop rx s i (matches @ [matched]))"

text \<open>
  \<^verbatim>\<open>static async cast(type, resolver, phrase, message, args)\<close> (lines 324-372). A
  function type is called plainly, so with an undefined receiver. Of the values, only
  a string has the method \<^verbatim>\<open>match\<close>.
\<close>

definition cast ::
  "typespec \<Rightarrow> resolver \<Rightarrow> jsval \<Rightarrow> message \<Rightarrow> args \<Rightarrow> (error + jsval) option" where
  "cast type resolver phrase message args =
     (case type of
        Enumeration es \<Rightarrow> Some (cast_entries es phrase)
      | Fn f \<Rightarrow> non_void_or_null (f None phrase message args)
      | Pattern rx \<Rightarrow>
          (case phrase of
             Str s \<Rightarrow>
               (case rx_match rx s of
                  None \<Rightarrow> Some (Inr Null)
                | Some m \<Rightarrow>
                    if rx_global rx then
                      (case exec_loop rx s 0 [] of
                         None \<Rightarrow> None
                       | Some matches \<Rightarrow> Some (Inr (MatchResult m matches)))
                    else Some (Inr (MatchResult m [])))
           | _ \<Rightarrow> Some (Inl TypeError))
      | Named name \<Rightarrow>
          (case resolver name of
             Some c \<Rightarrow> non_void_or_null (c phrase message args)
           | None \<Rightarrow> if truthy phrase then Some (Inr phrase) else Some (Inr Null)))"

text \<open>
  \<^verbatim>\<open>f.bind(this)\<close> for a function type, as in
  \<^verbatim>\<open>if (typeof type === 'function') type = type.bind(this)\<close>: the bound function ignores
  the receiver of any later call, and so binding it again changes nothing.
\<close>

definition bind_this :: "typespec \<Rightarrow> receiver \<Rightarrow> typespec" where
  "bind_this type this = (case type of Fn f \<Rightarrow> Fn (\<lambda>_. f this) | _ \<Rightarrow> type)"

text \<open>
  \<^verbatim>\<open>Argument.union(...types)\<close> (lines 381-392). The guard of line 384 reads
  \<^verbatim>\<open>typeof type === 'function'\<close>, and no \<^verbatim>\<open>type\<close> is in scope there: the test is
  false for every entry and no entry is ever bound, so the loop passes each
  \<^verbatim>\<open>entry\<close> to \<^verbatim>\<open>Argument.cast\<close> as it is. \<^verbatim>\<open>this.handler.resolver\<close> raises a
  TypeError when \<^verbatim>\<open>this\<close> is undefined.
\<close>

fun union_loop :: "typespec list \<Rightarrow> receiver \<Rightarrow> caster" where
  "union_loop [] this phrase message args = Some (Inr Null)"
| "union_loop (entry # types) this phrase message args =
     (case this of
        None \<Rightarrow> Some (Inl TypeError)
      | Some resolver \<Rightarrow>
          (case cast entry resolver phrase message args of
             None \<Rightarrow> None
           | Some (Inl e) \<Rightarrow> Some (Inl e)
           | Some (Inr res) \<Rightarrow>
               if \<not> is_void res then Some (Inr res)
               else union_loop types this phrase message args))"

definition union :: "typespec list \<Rightarrow> typespec" where
  "union types = Fn (union_loop types)"

text \<open>\<^verbatim>\<open>Argument.tuple(...types)\<close> (lines 400-413), with the same guard on line 404.\<close>

fun tuple_loop :: "typespec list \<Rightarrow> jsval list \<Rightarrow> receiver \<Rightarrow> caster" where
  "tuple_loop [] results this phrase message args = Some (Inr (Arr results))"
| "tuple_loop (entry # types) results this phrase message args =
     (case this of
        None \<Rightarrow> Some (Inl TypeError)
      | Some resolver \<Rightarrow>
          (case cast entry resolver phrase message args of
             None \<Rightarrow> None
           | Some (Inl e) \<Rightarrow> Some (Inl e)
           | Some (Inr res) \<Rightarrow>
               if is_void res then Some (Inr Null)
               else tuple_loop types (results @ [res]) this phrase message args))"

definition tuple :: "typespec list \<Rightarrow> typespec" where
  "tuple types = Fn (tuple_loop types [])"

text \<open>
  \<^verbatim>\<open>Argument.validate(type, predicate)\<close> (lines 422-430). Here the guard names the
  parameter \<^verbatim>\<open>type\<close>, so a function type is bound to the receiver, and line 424 assigns
  the bound function to the variable \<^verbatim>\<open>type\<close> of the closure, where the next call finds
  it. \<open>validate_call\<close> is one call of \<^verbatim>\<open>typeFn\<close>: what it returns, and the variable
  \<^verbatim>\<open>type\<close> after it.

  The predicate is a function of the caller's. The call
  \<^verbatim>\<open>predicate.call(this, res, phrase, message, args)\<close> returns something truthy
  (\<open>Some (Inr True)\<close>) or not, throws, or does not return.
\<close>

type_synonym predicate =
  "receiver \<Rightarrow> jsval \<Rightarrow> jsval \<Rightarrow> message \<Rightarrow> args \<Rightarrow> (error + bool) option"

definition validate_call ::
  "predicate \<Rightarrow> typespec \<Rightarrow> receiver \<Rightarrow> jsval \<Rightarrow> message \<Rightarrow> args
   \<Rightarrow> (error + jsval) option \<times> typespec" where
  "validate_call predicate type0 this phrase message args =
     (let type = bind_this type0 this
      in ((case this of
             None \<Rightarrow> Some (Inl TypeError)
           | Some resolver \<Rightarrow>
               (case cast type resolver phrase message args of
                  None \<Rightarrow> None
                | Some (Inl e) \<Rightarrow> Some (Inl e)
                | Some (Inr res) \<Rightarrow>
                    if is_void res then Some (Inr Null)
                    else
                      (case predicate this res phrase message args of
                         None \<Rightarrow> None
                       | Some (Inl e) \<Rightarrow> Some (Inl e)
                       | Some (Inr passed) \<Rightarrow>
                           if \<not> passed then Some (Inr Null) else Some (Inr res)))),
          type))"

text \<open>
  \<open>validate type predicate\<close> is \<^verbatim>\<open>typeFn\<close> while its variable holds \<open>type\<close>: as
  \<^verbatim>\<open>Argument.validate\<close> returns it, and after a call it is \<open>validate type' predicate\<close>
  for the \<open>type'\<close> that \<open>validate_call\<close> gives. A call with the receiver of the earlier
  calls finds nothing changed for it, and such are the calls of an argument's own type,
  which the constructor binds to the argument.
\<close>

definition validate :: "typespec \<Rightarrow> predicate \<Rightarrow> typespec" where
  "validate type predicate =
     Fn (\<lambda>this phrase message args. fst (validate_call predicate type this phrase message args))"



text \<open>
  \<^verbatim>\<open>Argument.compose(type1, type2, ignoreVoid = true)\<close> (lines 452-460). Lines 454 and
  457 assign the bound functions to the variables \<^verbatim>\<open>type1\<close> and \<^verbatim>\<open>type2\<close> of the
  closure. \<open>compose_call\<close> is one call of \<^verbatim>\<open>typeFn\<close>: what it returns, and the two
  variables after it.
\<close>

definition compose_call ::
  "bool \<Rightarrow> typespec \<Rightarrow> typespec \<Rightarrow> receiver \<Rightarrow> jsval \<Rightarrow> message \<Rightarrow> args
   \<Rightarrow> (error + jsval) option \<times> typespec \<times> typespec" where
  "compose_call ignoreVoid type1_0 type2_0 this phrase message args =
     (let type1 = bind_this type1_0 this
      in case this of
           None \<Rightarrow> (Some (Inl TypeError), type1, type2_0)
         | Some resolver \<Rightarrow>
             (case cast type1 resolver phrase message args of
                None \<Rightarrow> (None, type1, type2_0)
              | Some (Inl e) \<Rightarrow> (Some (Inl e), type1, type2_0)
              | Some (Inr res) \<Rightarrow>
                  if is_void res \<and> \<not> ignoreVoid then (Some (Inr Null), type1, type2_0)
                  else (let type2 = bind_this type2_0 this
                        in (cast type2 resolver res message args, type1, type2))))"

text \<open>
  \<open>compose type1 type2 ignoreVoid\<close> is \<^verbatim>\<open>typeFn\<close> while its variables hold \<open>type1\<close> and
  \<open>type2\<close>, as \<open>validate type predicate\<close> is above.
\<close>

definition compose :: "typespec \<Rightarrow> typespec \<Rightarrow> bool \<Rightarrow> typespec" where
  "compose type1 type2 ignoreVoid =
     Fn (\<lambda>this phrase message args.
           fst (compose_call ignoreVoid type1 type2 this phrase message args))"

section \<open>Prompt options\<close>

text \<open>
  The text of a prompt: \<open>NoContent\<close> is \<^verbatim>\<open>undefined\<close>, \<open>Text\<close> a string, \<open>Lines\<close> an
  array of lines, \<open>Rich\<close> any other message payload (an embed, message options).
\<close>

datatype content = NoContent | Text string | Lines "string list" | Rich string

text \<open>The \<^verbatim>\<open>ArgumentPromptData\<close> passed to prompt functions.\<close>

record prompt_data =
  pd_retries :: nat
  pd_infinite :: bool
  pd_message :: message
  pd_phrase :: string

datatype prompter =
    Literal content
  | Supplier "message \<Rightarrow> args \<Rightarrow> prompt_data \<Rightarrow> content"

type_synonym modifier = "content \<Rightarrow> message \<Rightarrow> args \<Rightarrow> prompt_data \<Rightarrow> content"

text \<open>
  \<^verbatim>\<open>ArgumentPromptOptions\<close>: every property may be absent from a layer, and an
  absent property reads as \<^verbatim>\<open>undefined\<close>.
\<close>

record prompt_options =
  retries :: "nat option"
  time :: "nat option"
  cancelWord :: "string option"
  stopWord :: "string option"
  optional :: "bool option"
  infinite_p :: "bool option"
  limit :: "enat option"
  breakout :: "bool option"
  start :: "prompter option"
  retry :: "prompter option"
  timeout :: "prompter option"
  ended :: "prompter option"
  cancel :: "prompter option"
  modifyStart :: "modifier option"
  modifyRetry :: "modifier option"
  modifyTimeout :: "modifier option"
  modifyEnded :: "modifier option"
  modifyCancel :: "modifier option"

definition no_options :: prompt_options where
  "no_options = \<lparr>retries = None, time = None, cancelWord = None, stopWord = None,
     optional = None, infinite_p = None, limit = None, breakout = None, start = None,
     retry = None, timeout = None, ended = None, cancel = None, modifyStart = None,
     modifyRetry = None, modifyTimeout = None, modifyEnded = None, modifyCancel = None\<rparr>"

definition override :: "'a option \<Rightarrow> 'a option \<Rightarrow> 'a option" where
  "override old new = (case new of None \<Rightarrow> old | Some v \<Rightarrow> Some v)"

text \<open>
  \<^verbatim>\<open>Object.assign(promptOptions, source)\<close>: every property the source has replaces the
  target's; a source that is \<^verbatim>\<open>null\<close> or \<^verbatim>\<open>undefined\<close> changes nothing.
\<close>

definition assign :: "prompt_options \<Rightarrow> prompt_options option \<Rightarrow> prompt_options" where
  "assign target source =
     (case source of
        None \<Rightarrow> target
      | Some s \<Rightarrow>
          \<lparr>retries = override (retries target) (retries s),
           time = override (time target) (time s),
           cancelWord = override (cancelWord target) (cancelWord s),
           stopWord = override (stopWord target) (stopWord s),
           optional = override (optional target) (optional s),
           infinite_p = override (infinite_p target) (infinite_p s),
           limit = override (limit target) (limit s),
           breakout = override (breakout target) (breakout s),
           start = override (start target) (start s),
           retry = override (retry target) (retry s),
           timeout = override (timeout target) (timeout s),
           ended = override (ended target) (ended s),
           cancel = override (cancel target) (cancel s),
           modifyStart = override (modifyStart target) (modifyStart s),
           modifyRetry = override (modifyRetry target) (modifyRetry s),
           modifyTimeout = override (modifyTimeout target) (modifyTimeout s),
           modifyEnded = override (modifyEnded target) (modifyEnded s),
           modifyCancel = override (modifyCancel target) (modifyCancel s)\<rparr>)"

section \<open>Arguments, commands and the handler\<close>

text \<open>
  Modelled from the spec: \<^verbatim>\<open>ArgumentMatches\<close> of \<^verbatim>\<open>util/Constants\<close>, which is not among
  the sources; the spec lists the match modes PHRASE, REST, SEPARATE, FLAG, OPTION,
  TEXT, CONTENT and NONE.
\<close>

datatype ArgumentMatch = PHRASE | REST | SEPARATE | FLAG | OPTION | TEXT | CONTENT | NONE

text \<open>
  Modelled from the spec: \<^verbatim>\<open>ParsingFlag\<close> (\<^verbatim>\<open>ParsingFlag.js\<close> is not among the sources),
  a tagged result distinct from any argument value: \<open>Cancel\<close> is \<^verbatim>\<open>ParsingFlag.cancel()\<close>
  and \<open>Retry m\<close> is \<^verbatim>\<open>ParsingFlag.retry(m)\<close>.
\<close>

datatype ParsingFlag = Cancel | Retry message

text \<open>What \<^verbatim>\<open>process\<close> and \<^verbatim>\<open>collect\<close> resolve to: a value or a parsing flag.\<close>

datatype outcome = Value jsval | Flag ParsingFlag

datatype default_supplier =
    DefaultValue jsval
  | DefaultFn "message \<Rightarrow> args \<Rightarrow> jsval"

text \<open>
  The parts of the command handler the argument reads. \<open>h_parseCommand m\<close> says whether
  \<^verbatim>\<open>handler.parseCommand(m)\<close> yields a result with a \<^verbatim>\<open>command\<close>.
\<close>

record handler =
  h_defaultPrompt :: "prompt_options option"
  h_resolver :: resolver
  h_commandUtil :: bool
  h_parseCommand :: "message \<Rightarrow> bool"

record command =
  c_defaultPrompt :: "prompt_options option"
  c_handler :: handler

text \<open>
  The fields of an \<^verbatim>\<open>Argument\<close> that \<^verbatim>\<open>process\<close>, \<^verbatim>\<open>cast\<close> and \<^verbatim>\<open>collect\<close> read
  (\<^verbatim>\<open>flag\<close>, \<^verbatim>\<open>index\<close>, \<^verbatim>\<open>unordered\<close>, \<^verbatim>\<open>limit\<close> and \<^verbatim>\<open>description\<close> are read by the
  command's parser only).
\<close>

record argument =
  a_id :: string
  a_match :: ArgumentMatch
  a_type :: typespec
  a_prompt :: "prompt_options option"
  a_default :: default_supplier
  a_command :: command

text \<open>\<^verbatim>\<open>get handler()\<close> (lines 102-104).\<close>

definition a_handler :: "argument \<Rightarrow> handler" where
  "a_handler A = c_handler (a_command A)"

text \<open>
  The constructor (lines 11-88): a function type is bound to the new argument, whose
  handler is the command's.
\<close>

definition new_Argument ::
  "command \<Rightarrow> string \<Rightarrow> ArgumentMatch \<Rightarrow> typespec \<Rightarrow> prompt_options option \<Rightarrow>
   default_supplier \<Rightarrow> argument" where
  "new_Argument cmd ident match type prompt defaultValue =
     \<lparr>a_id = ident, a_match = match,
      a_type = bind_this type (Some (h_resolver (c_handler cmd))),
      a_prompt = prompt, a_default = defaultValue, a_command = cmd\<rparr>"

section \<open>The state a prompt session works on\<close>

datatype route = ViaUtil | ViaChannel

text \<open>The calls made on \<^verbatim>\<open>message.util\<close> (a \<^verbatim>\<open>CommandUtil\<close>), in order.\<close>

datatype util_call = SetEditable bool | SetLastResponse message | AddMessage message

text \<open>
  What \<^verbatim>\<open>awaitMessages\<close> meets on the channel: a message, the end of the time limit, or
  a failure of the transport.
\<close>

datatype event = Incoming message | TimeUp | Broken

text \<open>
  \<open>inbox\<close> is what will arrive on the channel, \<open>outbox\<close> what has been sent, \<open>util\<close> the
  calls made on \<^verbatim>\<open>message.util\<close> (\<open>None\<close> when the message has none), \<open>args\<close> the
  \<^verbatim>\<open>args\<close> object, and \<open>cells\<close> with \<open>next_cell\<close> the heap of mutable arrays.

  Modelled from the spec: \<open>prompts\<close> is the session registry of the handler
  (\<^verbatim>\<open>CommandHandler\<close> is not among the sources), the set of (channel, author) pairs that
  \<^verbatim>\<open>addPrompt\<close> registers and \<^verbatim>\<open>removePrompt\<close> unregisters.

  \<open>casts\<close> is a history variable, not a variable of the program: the calls of
  \<^verbatim>\<open>this.cast\<close> made by \<^verbatim>\<open>process\<close> and \<^verbatim>\<open>collect\<close>, each with its result, in order.
\<close>

record world =
  inbox :: "event list"
  outbox :: "(route \<times> content) list"
  util :: "util_call list option"
  prompts :: "(nat \<times> nat) set"
  args :: args
  cells :: "nat \<Rightarrow> jsval list"
  next_cell :: nat
  casts :: "(jsval \<times> message \<times> (error + jsval)) list"

text \<open>
  The transport's \<^verbatim>\<open>send\<close>: given how many messages were sent before, the route and
  the text, it fails or yields the message that was sent.
\<close>

type_synonym platform = "nat \<Rightarrow> route \<Rightarrow> content \<Rightarrow> error + message"

definition send :: "platform \<Rightarrow> route \<Rightarrow> content \<Rightarrow> world \<Rightarrow> error + (message \<times> world)" where
  "send deliver r text w =
     (case deliver (length (outbox w)) r text of
        Inl e \<Rightarrow> Inl e
      | Inr sent \<Rightarrow> Inr (sent, w\<lparr>outbox := outbox w @ [(r, text)]\<rparr>))"

text \<open>\<^verbatim>\<open>if (message.util) { message.util.call1(...); ... }\<close>\<close>

definition util_calls :: "util_call list \<Rightarrow> world \<Rightarrow> world" where
  "util_calls cs w = w\<lparr>util := map_option (\<lambda>u. u @ cs) (util w)\<rparr>"

definition addPrompt :: "nat \<Rightarrow> nat \<Rightarrow> world \<Rightarrow> world" where
  "addPrompt channel author w = w\<lparr>prompts := insert (channel, author) (prompts w)\<rparr>"

definition removePrompt :: "nat \<Rightarrow> nat \<Rightarrow> world \<Rightarrow> world" where
  "removePrompt channel author w = w\<lparr>prompts := prompts w - {(channel, author)}\<rparr>"

text \<open>
  The \<^verbatim>\<open>args\<close> object as a function called with it reads it: an array reference shows
  the array's present elements.
\<close>

fun deref :: "(nat \<Rightarrow> jsval list) \<Rightarrow> jsval \<Rightarrow> jsval" where
  "deref h (Ref a) = Arr (h a)"
| "deref h v = v"

definition view :: "world \<Rightarrow> args" where
  "view w = (\<lambda>k. map_option (deref (cells w)) (args w k))"

text \<open>
  \<^verbatim>\<open>channel.awaitMessages(filter, { max: 1, time, errors: ['time'] })\<close> followed by
  \<^verbatim>\<open>.first()\<close>: the first message that passes the filter, unless the time limit or a
  failure comes first. A channel on which nothing more arrives runs into the time limit.
\<close>

fun awaitMessages :: "(message \<Rightarrow> bool) \<Rightarrow> event list \<Rightarrow> (error + message) \<times> event list" where
  "awaitMessages flt [] = (Inl TimeElapsed, [])"
| "awaitMessages flt (TimeUp # es) = (Inl TimeElapsed, es)"
| "awaitMessages flt (Broken # es) = (Inl TransportFailure, es)"
| "awaitMessages flt (Incoming m # es) =
     (if flt m then (Inr m, es) else awaitMessages flt es)"

section \<open>\<^verbatim>\<open>Argument#cast\<close> and \<^verbatim>\<open>Argument#collect\<close>\<close>

text \<open>
  What the code that awaits a cast goes on with: the value, or what was thrown. When the
  cast does not return, the code does not go on: \<open>Inl NeverReturns\<close> stands for that, and
  leaves \<^verbatim>\<open>process\<close> and \<^verbatim>\<open>collect\<close> as what is thrown does.
\<close>

definition awaited :: "(error + jsval) option \<Rightarrow> error + jsval" where
  "awaited r = (case r of None \<Rightarrow> Inl NeverReturns | Some x \<Rightarrow> x)"

text \<open>
  \<^verbatim>\<open>cast(phrase, message, args)\<close> of an argument (lines 146-148), as \<^verbatim>\<open>process\<close> and
  \<^verbatim>\<open>collect\<close> await it.
\<close>

definition arg_cast :: "argument \<Rightarrow> jsval \<Rightarrow> message \<Rightarrow> args \<Rightarrow> error + jsval" where
  "arg_cast A phrase message as =
     awaited (cast (a_type A) (h_resolver (a_handler A)) phrase message as)"

text \<open>An \<^verbatim>\<open>await this.cast(...)\<close> of \<^verbatim>\<open>process\<close> or \<^verbatim>\<open>collect\<close>, entered in the history.\<close>

definition logged_cast :: "argument \<Rightarrow> string \<Rightarrow> message \<Rightarrow> world \<Rightarrow> (error + jsval) \<times> world" where
  "logged_cast A phrase message w =
     (let r = arg_cast A (Str phrase) message (view w)
      in (r, w\<lparr>casts := casts w @ [(Str phrase, message, r)]\<rparr>))"

text \<open>
  The variables of \<^verbatim>\<open>collect\<close> that its closures \<^verbatim>\<open>getText\<close> and \<^verbatim>\<open>promptOne\<close> capture
  (lines 157-168), each under its name with the prefix \<open>s_\<close>. \<open>s_values\<close> is \<open>Some a\<close> for
  the array at address \<open>a\<close> and \<open>None\<close> for \<^verbatim>\<open>null\<close>.
\<close>

record scope =
  s_this :: argument
  s_deliver :: platform
  s_message :: message
  s_commandInput :: string
  s_promptOptions :: prompt_options
  s_isInfinite :: bool
  s_additionalRetry :: nat
  s_values :: "nat option"

text \<open>\<^verbatim>\<open>values.length\<close>, a TypeError when \<^verbatim>\<open>values\<close> is null.\<close>

definition values_length :: "scope \<Rightarrow> world \<Rightarrow> error + nat" where
  "values_length S w =
     (case s_values S of None \<Rightarrow> Inl TypeError | Some a \<Rightarrow> Inr (length (cells w a)))"

text \<open>\<^verbatim>\<open>text.join('\n')\<close> and the test \<^verbatim>\<open>if (Array.isArray(text)) text = text.join('\n')\<close>.\<close>

fun join_lines :: "string list \<Rightarrow> string" where
  "join_lines [] = []"
| "join_lines [l] = l"
| "join_lines (l # ls) = l @ [CHR 0x0A] @ join_lines ls"

definition joined :: "content \<Rightarrow> content" where
  "joined text = (case text of Lines ls \<Rightarrow> Text (join_lines ls) | _ \<Rightarrow> text)"

text \<open>Truthiness of a prompt text, as in \<^verbatim>\<open>if (startText)\<close>.\<close>

fun content_truthy :: "content \<Rightarrow> bool" where
  "content_truthy NoContent = False"
| "content_truthy (Text s) = (s \<noteq> [])"
| "content_truthy (Lines ls) = True"
| "content_truthy (Rich r) = True"

text \<open>The five prompt types \<^verbatim>\<open>'start'\<close>, \<^verbatim>\<open>'retry'\<close>, \<^verbatim>\<open>'timeout'\<close>, \<^verbatim>\<open>'ended'\<close>, \<^verbatim>\<open>'cancel'\<close>.\<close>

datatype prompt_type = T_start | T_retry | T_timeout | T_ended | T_cancel

text \<open>\<^verbatim>\<open>getText\<close> (lines 170-208).\<close>

definition getText ::
  "scope \<Rightarrow> world \<Rightarrow> prompt_type \<Rightarrow> prompter option \<Rightarrow> nat \<Rightarrow> message \<Rightarrow> string \<Rightarrow> content" where
  "getText S w promptType prompter retryCount inputMessage inputPhrase =
     (let data = \<lparr>pd_retries = retryCount, pd_infinite = s_isInfinite S,
                  pd_message = inputMessage, pd_phrase = inputPhrase\<rparr>;
          text = (case prompter of
                    None \<Rightarrow> NoContent
                  | Some (Literal c) \<Rightarrow> c
                  | Some (Supplier f) \<Rightarrow> f (s_message S) (view w) data);
          text = joined text;
          modifier = (case promptType of
                        T_start \<Rightarrow> modifyStart (s_promptOptions S)
                      | T_retry \<Rightarrow> modifyRetry (s_promptOptions S)
                      | T_timeout \<Rightarrow> modifyTimeout (s_promptOptions S)
                      | T_ended \<Rightarrow> modifyEnded (s_promptOptions S)
                      | T_cancel \<Rightarrow> modifyCancel (s_promptOptions S));
          text = (case modifier of
                    None \<Rightarrow> text
                  | Some g \<Rightarrow> g text (s_message S) (view w) data)
      in joined text)"

subsection \<open>One turn of \<^verbatim>\<open>promptOne\<close>\<close>

text \<open>
  A call of \<^verbatim>\<open>promptOne\<close> either returns (or throws), or ends in the tail call
  \<^verbatim>\<open>return promptOne(m, n)\<close>.
\<close>

datatype step = Again message nat | Done "error + outcome"

text \<open>\<^verbatim>\<open>shouldSend\<close> (lines 213-215).\<close>

definition shouldSend :: "scope \<Rightarrow> world \<Rightarrow> nat \<Rightarrow> error + bool" where
  "shouldSend S w retryCount =
     (if retryCount = 1 then
        (if \<not> s_isInfinite S then Inr True
         else (case values_length S w of Inl e \<Rightarrow> Inl e | Inr n \<Rightarrow> Inr (n = 0)))
      else Inr True)"

text \<open>
  Lines 217-237: resolve the start or retry text and send it, through \<^verbatim>\<open>message.util\<close>
  when the message has one. The result is \<^verbatim>\<open>sentStart\<close>.
\<close>

definition sendStart ::
  "scope \<Rightarrow> world \<Rightarrow> message \<Rightarrow> nat \<Rightarrow> error + (message option \<times> world)" where
  "sendStart S w prevMessage retryCount =
     (case shouldSend S w retryCount of
        Inl e \<Rightarrow> Inl e
      | Inr should \<Rightarrow>
          if should then
            (let prevInput = (if retryCount \<le> 1 + s_additionalRetry S then s_commandInput S
                              else m_content prevMessage);
                 promptType = (if retryCount = 1 then T_start else T_retry);
                 prompter = (if retryCount = 1 then start (s_promptOptions S)
                             else retry (s_promptOptions S));
                 startText = getText S w promptType prompter retryCount prevMessage prevInput
             in if content_truthy startText then
                  (case send (s_deliver S) (if util w \<noteq> None then ViaUtil else ViaChannel)
                          startText w of
                     Inl e \<Rightarrow> Inl e
                   | Inr (sentStart, w') \<Rightarrow>
                       Inr (Some sentStart,
                            util_calls [SetEditable False, SetLastResponse sentStart,
                                        AddMessage sentStart] w'))
                else Inr (None, w))
          else Inr (None, w))"

text \<open>The filter given to \<^verbatim>\<open>awaitMessages\<close> (lines 241-245).\<close>

definition reply_filter :: "scope \<Rightarrow> message option \<Rightarrow> message \<Rightarrow> bool" where
  "reply_filter S sentStart m =
     (if (case sentStart of Some sent \<Rightarrow> m_id m = m_id sent | None \<Rightarrow> False) then False
      else if m_author m \<noteq> m_author (s_message S) then False
      else True)"

text \<open>
  The common end of the timeout, cancel and ended branches: send the text over the
  channel if it is truthy, then return \<^verbatim>\<open>ParsingFlag.cancel()\<close>
  (lines 254-259, 269-274, 289-294).
\<close>

definition sendAndCancel :: "scope \<Rightarrow> world \<Rightarrow> content \<Rightarrow> (error + outcome) \<times> world" where
  "sendAndCancel S w text =
     (if content_truthy text then
        (case send (s_deliver S) ViaChannel text w of
           Inl e \<Rightarrow> (Inl e, w)
         | Inr (sent, w') \<Rightarrow> (Inr (Flag Cancel), util_calls [AddMessage sent] w'))
      else (Inr (Flag Cancel), w))"

text \<open>The \<^verbatim>\<open>catch\<close> block of the await (lines 252-260).\<close>

definition onTimeout :: "scope \<Rightarrow> world \<Rightarrow> message \<Rightarrow> nat \<Rightarrow> (error + outcome) \<times> world" where
  "onTimeout S w prevMessage retryCount =
     sendAndCancel S w
       (getText S w T_timeout (timeout (s_promptOptions S)) retryCount prevMessage [])"

text \<open>Lines 282-305: cast the reply; retry, give up, accumulate or return.\<close>

definition castReply :: "scope \<Rightarrow> world \<Rightarrow> message \<Rightarrow> nat \<Rightarrow> step \<times> world" where
  "castReply S w input retryCount =
     (case logged_cast (s_this S) (m_content input) input w of
        (Inl e, w1) \<Rightarrow> (Done (Inl e), w1)
      | (Inr parsedValue, w1) \<Rightarrow>
          if is_void parsedValue then
            (if (case retries (s_promptOptions S) of Some r \<Rightarrow> retryCount \<le> r | None \<Rightarrow> False)
             then (Again input (retryCount + 1), w1)
             else (case sendAndCancel S w1
                          (getText S w1 T_ended (ended (s_promptOptions S)) retryCount input
                             (m_content input)) of
                     (r, w2) \<Rightarrow> (Done r, w2)))
          else if s_isInfinite S then
            (case s_values S of
               None \<Rightarrow> (Done (Inl TypeError), w1)
             | Some a \<Rightarrow>
                 (let w2 = w1\<lparr>cells := (cells w1)(a := cells w1 a @ [parsedValue])\<rparr>
                  in if (case limit (s_promptOptions S) of
                           Some l \<Rightarrow> enat (length (cells w2 a)) < l
                         | None \<Rightarrow> False)
                     then (Again (s_message S) 1, w2)
                     else (Done (Inr (Value (Ref a))), w2)))
          else (Done (Inr (Value parsedValue)), w1))"

text \<open>Lines 277-280: the stop word of an infinite prompt.\<close>

definition stopCheck :: "scope \<Rightarrow> world \<Rightarrow> message \<Rightarrow> nat \<Rightarrow> step \<times> world" where
  "stopCheck S w input retryCount =
     (if s_isInfinite S then
        (case stopWord (s_promptOptions S) of
           None \<Rightarrow> (Done (Inl TypeError), w)
         | Some sw \<Rightarrow>
             if toLowerCase (m_content input) = toLowerCase sw then
               (case s_values S of
                  None \<Rightarrow> (Done (Inl TypeError), w)
                | Some a \<Rightarrow>
                    if cells w a = [] then (Again input (retryCount + 1), w)
                    else (Done (Inr (Value (Ref a))), w))
             else castReply S w input retryCount)
      else castReply S w input retryCount)"

text \<open>Lines 267-275: the cancel word.\<close>

definition cancelCheck :: "scope \<Rightarrow> world \<Rightarrow> message \<Rightarrow> nat \<Rightarrow> step \<times> world" where
  "cancelCheck S w input retryCount =
     (case cancelWord (s_promptOptions S) of
        None \<Rightarrow> (Done (Inl TypeError), w)
      | Some cw \<Rightarrow>
          if toLowerCase (m_content input) = toLowerCase cw then
            (case sendAndCancel S w
                    (getText S w T_cancel (cancel (s_promptOptions S)) retryCount input []) of
               (r, w') \<Rightarrow> (Done r, w'))
          else stopCheck S w input retryCount)"

text \<open>Lines 262-265: breakout, and then the checks above.\<close>

definition afterReply :: "scope \<Rightarrow> world \<Rightarrow> message \<Rightarrow> nat \<Rightarrow> step \<times> world" where
  "afterReply S w input retryCount =
     (if breakout (s_promptOptions S) = Some True
         \<and> h_parseCommand (a_handler (s_this S)) input
      then (Done (Inr (Flag (Retry input))), w)
      else cancelCheck S w input retryCount)"

text \<open>The body of \<^verbatim>\<open>promptOne\<close> (lines 211-306) up to its return or tail call.\<close>

definition turn :: "scope \<Rightarrow> world \<Rightarrow> message \<Rightarrow> nat \<Rightarrow> step \<times> world" where
  "turn S w prevMessage retryCount =
     (case sendStart S w prevMessage retryCount of
        Inl e \<Rightarrow> (Done (Inl e), w)
      | Inr (sentStart, w1) \<Rightarrow>
          (case awaitMessages (reply_filter S sentStart) (inbox w1) of
             (Inr input, rest) \<Rightarrow>
               afterReply S (util_calls [AddMessage input] (w1\<lparr>inbox := rest\<rparr>)) input retryCount
           | (Inl err, rest) \<Rightarrow>
               (case onTimeout S (w1\<lparr>inbox := rest\<rparr>) prevMessage retryCount of
                  (r, w2) \<Rightarrow> (Done r, w2))))"

subsection \<open>\<^verbatim>\<open>promptOne\<close>, \<^verbatim>\<open>collect\<close> and \<^verbatim>\<open>process\<close>\<close>

text \<open>
  \<^verbatim>\<open>promptOne(prevMessage, retryCount)\<close>: turns follow one another until one returns
  or throws, or casts a reply with a cast that does not return; the result is then
  \<open>Inl NeverReturns\<close>, with the state the session stays in. Every turn that goes on has
  taken a message from the inbox, so the recursion ends.
\<close>

function promptOne :: "scope \<Rightarrow> world \<Rightarrow> message \<Rightarrow> nat \<Rightarrow> (error + outcome) \<times> world" where
  "promptOne S w prevMessage retryCount =
     (case turn S w prevMessage retryCount of
        (Again m n, w') \<Rightarrow> promptOne S w' m n
      | (Done r, w') \<Rightarrow> (r, w'))"
  by pat_completeness auto
termination
proof -
  have await: "length rest < length es" if "awaitMessages flt es = (Inr i, rest)"
    for flt es i rest
    using that by (induction flt es rule: awaitMessages.induct) (auto split: if_splits)
  have sent: "inbox w1 = inbox w0" if "sendStart S w0 prevMessage retryCount = Inr (s, w1)"
    for S w0 w1 s prevMessage retryCount
    using that
    by (auto simp: sendStart_def send_def util_calls_def Let_def
        split: sum.splits if_splits prod.splits)
  have cast: "inbox w1 = inbox w0" if "castReply S w0 i retryCount = (Again m n, w1)"
    for S w0 w1 i retryCount m n
    using that
    by (auto simp: castReply_def logged_cast_def sendAndCancel_def Let_def
        split: sum.splits if_splits prod.splits option.splits)
  have reply: "inbox w1 = inbox w0" if "afterReply S w0 i retryCount = (Again m n, w1)"
    for S w0 w1 i retryCount m n
    using that cast
    by (auto simp: afterReply_def cancelCheck_def stopCheck_def
        split: sum.splits if_splits prod.splits option.splits)
  have key: "length (inbox w') < length (inbox w)"
    if "turn S w prevMessage retryCount = (Again m n, w')"
    for S w w' prevMessage retryCount m n
    using that
    by (auto simp: turn_def util_calls_def split: sum.splits prod.splits
        dest!: sent await reply)
  show ?thesis
    by (relation "measure (\<lambda>(S, w, prevMessage, retryCount). length (inbox w))")
      (auto dest: key [OF sym])
qed

declare promptOne.simps [simp del]

text \<open>The merged prompt options (lines 158-162).\<close>

definition mergedOptions :: "argument \<Rightarrow> prompt_options" where
  "mergedOptions A =
     assign (assign (assign no_options (h_defaultPrompt (a_handler A)))
               (c_defaultPrompt (a_command A)))
       (a_prompt A)"

text \<open>
  The variables \<^verbatim>\<open>collect\<close> sets up for its closures (lines 158-167); the new array
  \<^verbatim>\<open>values\<close> takes the next free address of the heap.
\<close>

definition collect_scope ::
  "platform \<Rightarrow> argument \<Rightarrow> message \<Rightarrow> string \<Rightarrow> world \<Rightarrow> scope" where
  "collect_scope deliver A message commandInput w =
     (let promptOptions = mergedOptions A;
          isInfinite = (infinite_p promptOptions = Some True
                        \<and> (if a_match A = SEPARATE then commandInput = [] else True));
          additionalRetry = (if commandInput \<noteq> [] then 1 else 0)
      in \<lparr>s_this = A, s_deliver = deliver, s_message = message,
          s_commandInput = commandInput, s_promptOptions = promptOptions,
          s_isInfinite = isInfinite, s_additionalRetry = additionalRetry,
          s_values = (if isInfinite then Some (next_cell w) else None)\<rparr>)"

text \<open>
  The state in which the first \<^verbatim>\<open>promptOne\<close> starts: the empty array is allocated and
  stored as \<^verbatim>\<open>args[this.id]\<close> (lines 167-168), and the prompt is registered (line 308).
\<close>

definition collect_entry ::
  "platform \<Rightarrow> argument \<Rightarrow> message \<Rightarrow> string \<Rightarrow> world \<Rightarrow> world" where
  "collect_entry deliver A message commandInput w =
     (let S = collect_scope deliver A message commandInput w;
          w1 = (case s_values S of
                  None \<Rightarrow> w
                | Some a \<Rightarrow> w\<lparr>cells := (cells w)(a := []), next_cell := Suc a,
                              args := (args w)(a_id A \<mapsto> Ref a)\<rparr>)
      in addPrompt (m_channel message) (m_author message) w1)"

text \<open>
  \<^verbatim>\<open>async collect(message, args = {}, commandInput = '')\<close> (lines 157-313). An error
  thrown by \<^verbatim>\<open>promptOne\<close> leaves through line 309; line 310 reads \<^verbatim>\<open>message.util\<close>
  whenever the handler has \<^verbatim>\<open>commandUtil\<close> set.
\<close>

definition collect ::
  "platform \<Rightarrow> argument \<Rightarrow> message \<Rightarrow> string \<Rightarrow> world \<Rightarrow> (error + outcome) \<times> world" where
  "collect deliver A message commandInput w =
     (let S = collect_scope deliver A message commandInput w
      in case promptOne S (collect_entry deliver A message commandInput w) message
                (1 + s_additionalRetry S) of
           (Inl e, w') \<Rightarrow> (Inl e, w')
         | (Inr returnValue, w') \<Rightarrow>
             if h_commandUtil (a_handler A) then
               (case util w' of
                  None \<Rightarrow> (Inl TypeError, w')
                | Some u \<Rightarrow>
                    (Inr returnValue,
                     removePrompt (m_channel message) (m_author message)
                       (w'\<lparr>util := Some (u @ [SetEditable False])\<rparr>)))
             else (Inr returnValue, removePrompt (m_channel message) (m_author message) w'))"

text \<open>
  \<^verbatim>\<open>typeof this.default === 'function' ? this.default(message, args) : this.default\<close>
  (lines 121-122 and 131-132).
\<close>

definition resolve_default :: "argument \<Rightarrow> message \<Rightarrow> world \<Rightarrow> jsval" where
  "resolve_default A message w =
     (case a_default A of DefaultValue v \<Rightarrow> v | DefaultFn f \<Rightarrow> f message (view w))"

text \<open>\<^verbatim>\<open>layer && layer.optional\<close>\<close>

definition marks_optional :: "prompt_options option \<Rightarrow> bool" where
  "marks_optional layer = (case layer of None \<Rightarrow> False | Some p \<Rightarrow> optional p = Some True)"

text \<open>\<^verbatim>\<open>async process(phrase, message, args = {})\<close> (lines 113-137).\<close>

definition process ::
  "platform \<Rightarrow> argument \<Rightarrow> string \<Rightarrow> message \<Rightarrow> world \<Rightarrow> (error + outcome) \<times> world" where
  "process deliver A phrase0 message w =
     (let phrase = trim phrase0;
          isOptional = (marks_optional (a_prompt A)
                        \<or> marks_optional (c_defaultPrompt (a_command A))
                        \<or> marks_optional (h_defaultPrompt (a_handler A)))
      in if phrase = [] \<and> isOptional then (Inr (Value (resolve_default A message w)), w)
         else
           (case logged_cast A phrase message w of
              (Inl e, w1) \<Rightarrow> (Inl e, w1)
            | (Inr res, w1) \<Rightarrow>
                if is_void res then
                  (if a_prompt A \<noteq> None then collect deliver A message phrase w1
                   else (Inr (Value (resolve_default A message w1)), w1))
                else (Inr (Value res), w1)))"

text \<open>
  The turns of a session: \<open>reaches S c c'\<close> when the call of \<^verbatim>\<open>promptOne\<close> in the
  configuration \<open>c\<close> (state, \<^verbatim>\<open>prevMessage\<close>, \<^verbatim>\<open>retryCount\<close>) is \<open>c'\<close> itself or leads to it
  through tail calls.
\<close>

inductive reaches :: "scope \<Rightarrow> world \<times> message \<times> nat \<Rightarrow> world \<times> message \<times> nat \<Rightarrow> bool"
  for S :: scope where
  here: "reaches S c c"
| later: "turn S w prevMessage retryCount = (Again m n, w') \<Longrightarrow> reaches S (w', m, n) c
          \<Longrightarrow> reaches S (w, prevMessage, retryCount) c"

text \<open>
  Three notions to state what a session does to the state. \<open>accepted cs\<close> are the
  non-void results among the casts \<open>cs\<close> of the history; \<open>pushed S cs h\<close> is the heap \<open>h\<close>
  after these were appended to the \<^verbatim>\<open>values\<close> array of an infinite prompt; and
  \<open>frame S w w'\<close> says that \<open>w'\<close> differs from \<open>w\<close> at most by casts made and pushed,
  messages sent, messages taken from the inbox and calls on \<^verbatim>\<open>message.util\<close>.
\<close>

fun accepted :: "(jsval \<times> message \<times> (error + jsval)) list \<Rightarrow> jsval list" where
  "accepted [] = []"
| "accepted ((phrase, m, Inl e) # cs) = accepted cs"
| "accepted ((phrase, m, Inr v) # cs) = (if is_void v then accepted cs else v # accepted cs)"

definition pushed ::
  "scope \<Rightarrow> (jsval \<times> message \<times> (error + jsval)) list \<Rightarrow> (nat \<Rightarrow> jsval list)
   \<Rightarrow> (nat \<Rightarrow> jsval list)" where
  "pushed S new h =
     (case s_values S of
        Some a \<Rightarrow> if s_isInfinite S then h(a := h a @ accepted new) else h
      | None \<Rightarrow> h)"

definition frame :: "scope \<Rightarrow> world \<Rightarrow> world \<Rightarrow> bool" where
  "frame S w w' =
     ((\<exists>new. casts w' = casts w @ new \<and> cells w' = pushed S new (cells w))
      \<and> args w' = args w \<and> prompts w' = prompts w \<and> next_cell w' = next_cell w
      \<and> (util w' = None) = (util w = None) \<and> prefix (outbox w) (outbox w'))"

section \<open>A handler, a command and a channel to run the code on\<close>

text \<open>A caster for \<^verbatim>\<open>'integer'\<close>: a string of decimal digits is its number.\<close>

definition digit_of :: "char \<Rightarrow> int option" where
  "digit_of c = map_of (zip ''0123456789'' [0, 1, 2, 3, 4, 5, 6, 7, 8, 9]) c"

fun digits_value :: "int \<Rightarrow> string \<Rightarrow> int option" where
  "digits_value n [] = Some n"
| "digits_value n (c # cs) =
     (case digit_of c of None \<Rightarrow> None | Some d \<Rightarrow> digits_value (10 * n + d) cs)"

definition integer_caster :: caster where
  "integer_caster phrase message as =
     (case phrase of
        Str s \<Rightarrow>
          (if s = [] then Some (Inr Null)
           else (case digits_value 0 s of
                   None \<Rightarrow> Some (Inr Null)
                 | Some n \<Rightarrow> Some (Inr (Num n))))
      | _ \<Rightarrow> Some (Inr Null))"

definition demo_resolver :: resolver where
  "demo_resolver name = (if name = ''integer'' then Some integer_caster else None)"

definition demo_options :: prompt_options where
  "demo_options = no_options\<lparr>retries := Some 1, time := Some 30000,
     cancelWord := Some ''cancel'', stopWord := Some ''stop'', optional := Some False,
     infinite_p := Some False, limit := Some \<infinity>, breakout := Some True,
     start := Some (Literal (Text ''start?'')), retry := Some (Literal (Text ''retry?'')),
     timeout := Some (Literal (Text ''timed out'')), ended := Some (Literal (Text ''ended'')),
     cancel := Some (Literal (Text ''cancelled''))\<rparr>"

definition demo_handler :: handler where
  "demo_handler = \<lparr>h_defaultPrompt = Some demo_options, h_resolver = demo_resolver,
     h_commandUtil = False, h_parseCommand = (\<lambda>m. take 1 (m_content m) = ''!'')\<rparr>"

definition demo_command :: command where
  "demo_command = \<lparr>c_defaultPrompt = None, c_handler = demo_handler\<rparr>"

definition user_says :: "nat \<Rightarrow> string \<Rightarrow> event" where
  "user_says i text = Incoming \<lparr>m_id = i, m_author = 7, m_channel = 3, m_content = text\<rparr>"

definition demo_message :: message where
  "demo_message = \<lparr>m_id = 0, m_author = 7, m_channel = 3, m_content = ''!pick''\<rparr>"

text \<open>A transport that delivers everything, and one whose first send fails.\<close>

definition delivering :: platform where
  "delivering n r text =
     Inr \<lparr>m_id = 1000 + n, m_author = 99, m_channel = 3, m_content = []\<rparr>"

definition failing_first :: platform where
  "failing_first n r text = (if n = 0 then Inl TransportFailure else delivering n r text)"

definition demo_world :: "event list \<Rightarrow> world" where
  "demo_world es = \<lparr>inbox = es, outbox = [], util = None, prompts = {}, args = Map.empty,
     cells = (\<lambda>a. []), next_cell = 0, casts = []\<rparr>"

text \<open>An argument of type \<^verbatim>\<open>'integer'\<close> with an empty prompt of its own.\<close>

definition demo_argument :: argument where
  "demo_argument = new_Argument demo_command ''n'' PHRASE (Named ''integer'') (Some no_options)
     (DefaultValue Null)"

text \<open>An infinite prompt whose cancel word and stop word both read as a command.\<close>

definition demo_quit_argument :: argument where
  "demo_quit_argument = new_Argument demo_command ''n'' PHRASE (Named ''integer'')
     (Some (no_options\<lparr>cancelWord := Some ''!quit'', stopWord := Some ''!quit'',
                        infinite_p := Some True\<rparr>))
     (DefaultValue Null)"

text \<open>An infinite prompt for at most three integers.\<close>

definition demo_list_argument :: argument where
  "demo_list_argument = new_Argument demo_command ''n'' PHRASE (Named ''integer'')
     (Some (no_options\<lparr>infinite_p := Some True, limit := Some 3\<rparr>))
     (DefaultValue Null)"

definition demo_once_argument :: argument where
  "demo_once_argument = new_Argument demo_command ''n'' PHRASE (Named ''integer'')
     (Some (no_options\<lparr>retries := Some 0\<rparr>)) (DefaultValue Null)"





definition rx_empty_global :: regex where
  "rx_empty_global =
     \<lparr>rx_match = (\<lambda>s. Some (replicate (Suc (length s)) [])),
      rx_global = True,
      rx_exec = (\<lambda>s i. if length s < i then None else Some ([[]], i))\<rparr>"

section \<open>Properties of the type caster\<close>


lemma some_matches_True: "some_matches g p = Inr True \<Longrightarrow> \<exists>t ts. g = t # ts"
  by (cases g) auto


lemma cast_entries_normal: "cast_entries es p = Inr v \<Longrightarrow> v = Null \<or> \<not> is_void v"
proof (induction es)
  case Nil
  then show ?case by simp
next
  case (Cons e es)
  then show ?case
    by (cases e) (auto simp: is_void_def split: sum.splits if_splits dest!: some_matches_True)
qed

lemma truthy_not_void: "truthy v \<Longrightarrow> \<not> is_void v"
  by (cases v) (auto simp: is_void_def)

lemma non_void_or_null_normal:
  "non_void_or_null x = Some (Inr v) \<Longrightarrow> v = Null \<or> \<not> is_void v"
  by (auto simp: non_void_or_null_def split: option.splits sum.splits if_splits)

lemma cast_normal: "cast type r p m a = Some (Inr v) \<Longrightarrow> v = Null \<or> \<not> is_void v"
  by (cases type)
    (auto simp: cast_def is_void_def
      split: sum.splits option.splits if_splits jsval.splits
      dest: cast_entries_normal truthy_not_void non_void_or_null_normal)

lemma non_void_or_null_id:
  "(\<And>v. x = Some (Inr v) \<Longrightarrow> v = Null \<or> \<not> is_void v) \<Longrightarrow> non_void_or_null x = x"
  by (auto simp: non_void_or_null_def split: option.splits sum.splits)

lemma non_void_or_null_cast: "non_void_or_null (cast type r p m a) = cast type r p m a"
  by (rule non_void_or_null_id) (rule cast_normal)

lemma cast_Fn: "cast (Fn f) r p m a = non_void_or_null (f None p m a)"
  by (simp add: cast_def)

lemma cast_bound:
  "cast (bind_this (Fn f) this) r p m a = non_void_or_null (f this p m a)"
  by (simp add: bind_this_def cast_def)

lemma bind_this_bound: "bind_this (bind_this type this) this' = bind_this type this"
  by (cases type) (simp_all add: bind_this_def)




text \<open>The letters above U+007F and the no-break space.\<close>

lemma toLowerCase_latin1:
  "toLowerCase [CHR 0xC9, CHR ''T'', CHR 0xC9, CHR 0xD7, CHR 0xDF]
     = [CHR 0xE9, CHR ''t'', CHR 0xE9, CHR 0xD7, CHR 0xDF]"
  by (simp add: toLowerCase_def lower_char_def)

lemma trim_no_break_space: "trim [CHR 0xA0, CHR ''5'', CHR 0x20, CHR 0xA0] = ''5''"
  by (simp add: trim_def is_space_def)

subsection \<open>The loop over the matches of a global regular expression\<close>

lemma exec_loop_stuck:
  assumes "exec_loop rx s i ms = Some y"
  shows "\<not> (\<exists>matched. rx_exec rx s i = Some (matched, i))"
  using assms
proof (induction rx s i ms y rule: exec_loop.raw_induct [rotated 1, consumes 1])
  case (1 loop rx s i ms y)
  show ?case
  proof
    assume "\<exists>matched. rx_exec rx s i = Some (matched, i)"
    then obtain matched where e: "rx_exec rx s i = Some (matched, i)" by blast
    then have "loop rx s i (ms @ [matched]) = Some y" using 1(2) by simp
    from 1(1) [OF this] e show False by blast
  qed
qed



lemma cast_empty_global: "cast (Pattern rx_empty_global) r (Str s) m a = None"
proof -
  have "rx_exec rx_empty_global s 0 = Some ([[]], 0)"
    by (simp add: rx_empty_global_def)
  then have "exec_loop rx_empty_global s 0 [] = None"
    using exec_loop_stuck [of rx_empty_global s 0 "[]"]
    by (cases "exec_loop rx_empty_global s 0 []") auto
  then show ?thesis by (simp add: cast_def rx_empty_global_def)
qed

text \<open>
  So the cast of an argument of type \<^verbatim>\<open>/(?:)/g\<close> does not return, whatever the phrase, and
  \<^verbatim>\<open>process\<close> stops at its first \<^verbatim>\<open>await\<close>.
\<close>

lemma process_never_returns:
  assumes "a_type A = Pattern rx_empty_global" and "trim phrase \<noteq> []"
  shows "process deliver A phrase message w
       = (Inl NeverReturns,
          w\<lparr>casts := casts w @ [(Str (trim phrase), message, Inl NeverReturns)]\<rparr>)"
  using assms
  by (simp add: process_def logged_cast_def arg_cast_def awaited_def cast_empty_global Let_def)


subsection \<open>The combinators\<close>

lemma union_loop_normal:
  "union_loop ts (Some r) p m a = Some (Inr v) \<Longrightarrow> v = Null \<or> \<not> is_void v"
  by (induction ts) (auto split: option.splits sum.splits if_splits)


lemma cast_union:
  "cast (bind_this (union ts) (Some r)) r' p m a = union_loop ts (Some r) p m a"
  unfolding union_def cast_bound
  by (rule non_void_or_null_id) (rule union_loop_normal)




lemma validate_call_normal:
  "fst (validate_call predicate type this p m a) = Some (Inr v) \<Longrightarrow> v = Null \<or> \<not> is_void v"
  by (auto simp: validate_call_def Let_def split: option.splits sum.splits if_splits)

lemma cast_validate:
  "cast (bind_this (validate type predicate) (Some r)) r' p m a
     = fst (validate_call predicate type (Some r) p m a)"
  unfolding validate_def cast_bound
  by (rule non_void_or_null_id) (rule validate_call_normal)






text \<open>
  The variables of the two closures after a call. The receiver of the first call stays:
  a later call with another receiver finds the functions bound, and binds them to no
  effect. A later call with the same receiver returns what it would have returned
  before.
\<close>

lemma validate_call_variable:
  "snd (validate_call predicate type this p m a) = bind_this type this"
  by (simp add: validate_call_def Let_def)

lemma validate_call_sticky:
  "snd (validate_call predicate (bind_this type this) this' p m a) = bind_this type this"
  by (simp add: validate_call_def Let_def bind_this_bound)

lemma validate_call_same:
  "validate_call predicate (snd (validate_call predicate type this p m a)) this p' m' a'
     = validate_call predicate type this p' m' a'"
  by (simp add: validate_call_def Let_def bind_this_bound)

lemma compose_call_variables:
  "snd (compose_call ignoreVoid type1 type2 this p m a) = (t1, t2)
   \<Longrightarrow> t1 = bind_this type1 this \<and> (t2 = type2 \<or> t2 = bind_this type2 this)"
  by (auto simp: compose_call_def Let_def split: option.splits sum.splits if_splits)

lemma compose_call_sticky:
  "fst (snd (compose_call ignoreVoid (bind_this type1 this) type2 this' p m a))
     = bind_this type1 this"
  by (auto simp: compose_call_def Let_def bind_this_bound
      split: option.splits sum.splits if_splits)

lemma compose_call_same:
  assumes "snd (compose_call ignoreVoid type1 type2 this p m a) = (t1, t2)"
  shows "fst (compose_call ignoreVoid t1 t2 this p' m' a')
       = fst (compose_call ignoreVoid type1 type2 this p' m' a')"
proof -
  have "t1 = bind_this type1 this" and "bind_this t2 this = bind_this type2 this"
    using compose_call_variables [OF assms] by (auto simp: bind_this_bound)
  then show ?thesis
    by (auto simp: compose_call_def Let_def bind_this_bound split: option.splits sum.splits)
qed




lemma cast_integer:
  "cast (Named ''integer'') demo_resolver (Str ''42'') m a = Some (Inr (Num 42))"
  by (simp add: cast_def demo_resolver_def integer_caster_def digit_of_def
      non_void_or_null_def is_void_def)








subsection \<open>Union\<close>

text \<open>
  What the loop of \<^verbatim>\<open>union\<close> does with the casts of its entries, \<open>cast u r p m a\<close> being
  the call \<^verbatim>\<open>Argument.cast(entry, this.handler.resolver, phrase, message, args)\<close> of line
  386: the first result that is not a miss is returned and the later entries are not
  cast, and the loop misses exactly when every entry does.
\<close>

lemma union_loop_first:
  "\<forall>u\<in>set pre. cast u r p m a = Some (Inr Null) \<Longrightarrow> cast t r p m a = Some (Inr v)
   \<Longrightarrow> v \<noteq> Null \<Longrightarrow> union_loop (pre @ t # post) (Some r) p m a = Some (Inr v)"
proof (induction pre)
  case Nil
  then show ?case using cast_normal [of t r p m a v] by auto
next
  case (Cons u pre)
  then show ?case by (simp add: is_void_def)
qed

lemma union_loop_miss:
  "union_loop ts (Some r) p m a = Some (Inr Null)
   \<longleftrightarrow> (\<forall>t\<in>set ts. cast t r p m a = Some (Inr Null))"
proof (induction ts)
  case Nil
  show ?case by simp
next
  case (Cons t ts)
  show ?case
  proof (cases "cast t r p m a")
    case None
    then show ?thesis by simp
  next
    case (Some x)
    show ?thesis
    proof (cases x)
      case (Inl e)
      then show ?thesis using Some by simp
    next
      case (Inr v)
      then show ?thesis
        using Some Cons cast_normal [of t r p m a v] by (auto simp: is_void_def)
    qed
  qed
qed

text \<open>
  An entry that is itself made by a combinator reads \<^verbatim>\<open>this.handler\<close>. The loop calls it
  unbound, so it throws, and the union with it.
\<close>

lemma unbound_combinator_throws:
  "cast (validate type predicate) r p m a = Some (Inl TypeError)"
  "cast (compose type1 type2 ignoreVoid) r p m a = Some (Inl TypeError)"
  "cast (union (t # ts)) r p m a = Some (Inl TypeError)"
  "cast (tuple (t # ts)) r p m a = Some (Inl TypeError)"
  by (simp_all add: cast_def validate_def validate_call_def compose_def compose_call_def
      union_def tuple_def non_void_or_null_def Let_def)

text \<open>
  C9 fails on the code. \<^verbatim>\<open>validate('integer', x => x !== 0)\<close> as the type of an argument
  casts \<^verbatim>\<open>'5'\<close> to 5. As the one entry of a union it does not miss either, and yet the
  argument of type \<^verbatim>\<open>union(validate('integer', x => x !== 0))\<close> throws a TypeError on
  \<^verbatim>\<open>'5'\<close>: line 384 tests \<^verbatim>\<open>typeof type\<close> where lines 424, 454 and 457 test the variable
  they bind, so the entry is called with no receiver.
\<close>

theorem union_calls_entries_unbound:
  "arg_cast (new_Argument demo_command ''n'' PHRASE
               (validate (Named ''integer'')
                  (\<lambda>this x phrase message args. Some (Inr (x \<noteq> Num 0))))
               None (DefaultValue Null))
     (Str ''5'') demo_message Map.empty = Inr (Num 5)
   \<and> arg_cast (new_Argument demo_command ''n'' PHRASE
                 (union [validate (Named ''integer'')
                           (\<lambda>this x phrase message args. Some (Inr (x \<noteq> Num 0)))])
                 None (DefaultValue Null))
       (Str ''5'') demo_message Map.empty = Inl TypeError"
proof -
  let ?positive = "validate (Named ''integer'')
                     (\<lambda>this x phrase message args. Some (Inr (x \<noteq> Num 0)))"
  have r: "h_resolver (c_handler demo_command) = demo_resolver"
    by (simp add: demo_command_def demo_handler_def)
  have five: "cast (Named ''integer'') demo_resolver (Str ''5'') demo_message Map.empty
            = Some (Inr (Num 5))"
    by (simp add: cast_def demo_resolver_def integer_caster_def digit_of_def
        non_void_or_null_def is_void_def)
  have alone: "cast (bind_this ?positive (Some demo_resolver)) demo_resolver (Str ''5'')
                 demo_message Map.empty = Some (Inr (Num 5))"
    unfolding cast_validate
    by (simp add: validate_call_def bind_this_def five is_void_def)
  have nested: "cast (bind_this (union [?positive]) (Some demo_resolver)) demo_resolver
                  (Str ''5'') demo_message Map.empty = Some (Inl TypeError)"
    unfolding cast_union by (simp add: unbound_combinator_throws)
  show ?thesis
    using alone nested by (simp add: arg_cast_def new_Argument_def a_handler_def r awaited_def)
qed

section \<open>Properties of \<^verbatim>\<open>process\<close>\<close>

text \<open>
  C7. When the phrase trims to the empty string and one of the three prompt layers (the
  argument's, the command's default, the handler's default) marks \<^verbatim>\<open>optional\<close>,
  \<^verbatim>\<open>process\<close> returns the default: the value itself, or what the default function
  returns for \<^verbatim>\<open>(message, args)\<close>. The state is returned as it was: no cast is entered in
  the history, nothing is sent, awaited or registered, and the result does not depend on
  the argument's type.
\<close>

theorem process_optional_empty:
  assumes "trim phrase = []"
    and "marks_optional (a_prompt A) \<or> marks_optional (c_defaultPrompt (a_command A))
         \<or> marks_optional (h_defaultPrompt (a_handler A))"
  shows "process deliver A phrase message w = (Inr (Value (resolve_default A message w)), w)
       \<and> (\<forall>v. a_default A = DefaultValue v \<longrightarrow> resolve_default A message w = v)
       \<and> (\<forall>f. a_default A = DefaultFn f \<longrightarrow> resolve_default A message w = f message (view w))"
  using assms by (simp add: process_def resolve_default_def)

text \<open>The theorem above for a phrase of two blanks and an argument whose prompt is optional.\<close>

theorem process_optional_empty_witness:
  "trim ''  '' = []
   \<and> marks_optional (Some (no_options\<lparr>optional := Some True\<rparr>))
   \<and> process delivering
        (new_Argument demo_command ''n'' PHRASE (Named ''integer'')
           (Some (no_options\<lparr>optional := Some True\<rparr>)) (DefaultValue (Num 7)))
        ''  '' demo_message (demo_world [user_says 1 ''5''])
      = (Inr (Value (Num 7)), demo_world [user_says 1 ''5''])"
proof -
  have t: "trim ''  '' = []"
    by (simp add: trim_def is_space_def)
  have o: "marks_optional (Some (no_options\<lparr>optional := Some True\<rparr>))"
    by (simp add: marks_optional_def no_options_def)
  have o': "marks_optional (a_prompt (new_Argument demo_command ''n'' PHRASE (Named ''integer'')
           (Some (no_options\<lparr>optional := Some True\<rparr>)) (DefaultValue (Num 7))))
         \<or> marks_optional (c_defaultPrompt (a_command (new_Argument demo_command ''n'' PHRASE
           (Named ''integer'') (Some (no_options\<lparr>optional := Some True\<rparr>))
           (DefaultValue (Num 7)))))
         \<or> marks_optional (h_defaultPrompt (a_handler (new_Argument demo_command ''n'' PHRASE
           (Named ''integer'') (Some (no_options\<lparr>optional := Some True\<rparr>))
           (DefaultValue (Num 7)))))"
    using o by (simp add: new_Argument_def)
  have d: "a_default (new_Argument demo_command ''n'' PHRASE (Named ''integer'')
           (Some (no_options\<lparr>optional := Some True\<rparr>)) (DefaultValue (Num 7)))
         = DefaultValue (Num 7)"
    by (simp add: new_Argument_def)
  show ?thesis
    using process_optional_empty [OF t o', of delivering demo_message
        "demo_world [user_says 1 ''5'']"] t o d
    by simp
qed

section \<open>Properties of prompt sessions\<close>

subsection \<open>Turns and what they leave unchanged\<close>

lemma promptOne_Done: "turn S w p n = (Done r, w') \<Longrightarrow> promptOne S w p n = (r, w')"
  by (subst promptOne.simps) simp

lemma promptOne_Again:
  "turn S w p n = (Again m k, w') \<Longrightarrow> promptOne S w p n = promptOne S w' m k"
  by (subst promptOne.simps) simp

lemma reaches_promptOne:
  "reaches S c c' \<Longrightarrow> promptOne S (fst c) (fst (snd c)) (snd (snd c))
     = promptOne S (fst c') (fst (snd c')) (snd (snd c'))"
  by (induction rule: reaches.induct) (auto simp: promptOne_Again)

lemma reaches_trans: "reaches S c c' \<Longrightarrow> reaches S c' c'' \<Longrightarrow> reaches S c c''"
  by (induction rule: reaches.induct) (auto intro: reaches.intros)

lemma reaches_step:
  "reaches S c (w, p, n) \<Longrightarrow> turn S w p n = (Again m k, w') \<Longrightarrow> reaches S c (w', m, k)"
  by (erule reaches_trans) (auto intro: reaches.intros)

lemma promptOne_last_turn:
  "\<exists>w1 p1 n1. reaches S (w, p, n) (w1, p1, n1)
      \<and> turn S w1 p1 n1 = (Done (fst (promptOne S w p n)), snd (promptOne S w p n))"
proof (induction S w p n rule: promptOne.induct)
  case (1 S w p n)
  obtain st w' where t: "turn S w p n = (st, w')" by (cases "turn S w p n")
  show ?case
  proof (cases st)
    case (Again m k)
    from 1 [OF t [symmetric] Again]
    obtain w1 p1 n1 where "reaches S (w', m, k) (w1, p1, n1)"
      and "turn S w1 p1 n1 = (Done (fst (promptOne S w' m k)), snd (promptOne S w' m k))"
      by auto
    then show ?thesis
      using t Again by (auto simp: promptOne_Again intro: reaches.later)
  next
    case (Done r)
    then show ?thesis using t by (auto simp: promptOne_Done intro: reaches.here)
  qed
qed

lemma turn_reply:
  "sendStart S w p n = Inr (sentStart, w1)
   \<Longrightarrow> awaitMessages (reply_filter S sentStart) (inbox w1) = (Inr input, rest)
   \<Longrightarrow> turn S w p n = afterReply S (util_calls [AddMessage input] (w1\<lparr>inbox := rest\<rparr>)) input n"
  by (simp add: turn_def)

lemma turn_timeout:
  "sendStart S w p n = Inr (sentStart, w1)
   \<Longrightarrow> awaitMessages (reply_filter S sentStart) (inbox w1) = (Inl err, rest)
   \<Longrightarrow> turn S w p n
       = (Done (fst (onTimeout S (w1\<lparr>inbox := rest\<rparr>) p n)),
          snd (onTimeout S (w1\<lparr>inbox := rest\<rparr>) p n))"
  by (simp add: turn_def split: prod.splits)

lemma turn_send_failed:
  "sendStart S w p n = Inl e \<Longrightarrow> turn S w p n = (Done (Inl e), w)"
  by (simp add: turn_def)


lemma accepted_append: "accepted (xs @ ys) = accepted xs @ accepted ys"
  by (induction xs rule: accepted.induct) auto

lemma pushed_Nil: "pushed S [] h = h"
  by (auto simp: pushed_def split: option.splits)

lemma pushed_append: "pushed S (xs @ ys) h = pushed S ys (pushed S xs h)"
  by (auto simp: pushed_def accepted_append split: option.splits)

lemma frame_refl: "frame S w w"
  unfolding frame_def by (auto intro: exI [of _ "[]"] simp: pushed_Nil)

lemma frame_trans: "frame S w w' \<Longrightarrow> frame S w' w'' \<Longrightarrow> frame S w w''"
  unfolding frame_def
  apply (elim conjE exE)
  apply (intro conjI)
       apply (rule_tac x = "new @ newa" in exI)
       apply (simp add: pushed_append)
      apply simp_all
  done

lemma frame_inbox: "frame S (w\<lparr>inbox := es\<rparr>) w' \<Longrightarrow> frame S w w'"
  by (simp add: frame_def)

lemma sendStart_frame:
  "sendStart S w p n = Inr (s, w1) \<Longrightarrow> frame S w w1 \<and> inbox w1 = inbox w \<and> casts w1 = casts w \<and> cells w1 = cells w"
  unfolding frame_def
  by (auto simp: sendStart_def send_def util_calls_def Let_def pushed_Nil
      split: sum.splits if_splits prod.splits)

lemma sendAndCancel_frame:
  "sendAndCancel S w t = (r, w') \<Longrightarrow> frame S w w' \<and> inbox w' = inbox w \<and> casts w' = casts w \<and> cells w' = cells w
     \<and> (r = Inr (Flag Cancel) \<or> (\<exists>e. r = Inl e))"
  unfolding frame_def
  by (auto simp: sendAndCancel_def send_def util_calls_def pushed_Nil
      split: sum.splits if_splits prod.splits)


lemma frame_logged_void:
  "accepted [c] = [] \<Longrightarrow> frame S w (w\<lparr>casts := casts w @ [c]\<rparr>)"
  unfolding frame_def by (auto simp: pushed_def split: option.splits)

lemma frame_logged_plain:
  "\<not> s_isInfinite S \<or> s_values S = None \<Longrightarrow> frame S w (w\<lparr>casts := casts w @ [c]\<rparr>)"
  unfolding frame_def by (auto simp: pushed_def split: option.splits)

lemma frame_logged_push:
  "s_isInfinite S \<Longrightarrow> s_values S = Some a \<Longrightarrow> \<not> is_void v
   \<Longrightarrow> frame S w (w\<lparr>casts := casts w @ [(ph, m, Inr v)],
                      cells := (cells w)(a := cells w a @ [v])\<rparr>)"
  unfolding frame_def by (auto simp: pushed_def)

lemma castReply_frame:
  assumes "castReply S w i n = (st, w')"
  shows "frame S w w' \<and> inbox w' = inbox w"
proof -
  define r where "r = arg_cast (s_this S) (Str (m_content i)) i (view w)"
  define w1 where "w1 = w\<lparr>casts := casts w @ [(Str (m_content i), i, r)]\<rparr>"
  have lc: "logged_cast (s_this S) (m_content i) i w = (r, w1)"
    by (simp add: logged_cast_def r_def w1_def Let_def)
  have i1: "inbox w1 = inbox w" by (simp add: w1_def)
  show ?thesis
  proof (cases r)
    case (Inl e)
    then have "w' = w1" using assms lc by (simp add: castReply_def)
    moreover have "frame S w w1"
      unfolding w1_def using Inl by (intro frame_logged_void) simp
    ultimately show ?thesis using i1 by simp
  next
    case (Inr v)
    show ?thesis
    proof (cases "is_void v")
      case True
      have f1: "frame S w w1"
        unfolding w1_def using Inr True by (intro frame_logged_void) simp
      show ?thesis
      proof (cases "case retries (s_promptOptions S) of Some k \<Rightarrow> n \<le> k | None \<Rightarrow> False")
        case True
        then have "w' = w1" using assms lc Inr \<open>is_void v\<close> by (simp add: castReply_def)
        then show ?thesis using f1 i1 by simp
      next
        case False
        then obtain res where
          "sendAndCancel S w1 (getText S w1 T_ended (ended (s_promptOptions S)) n i
             (m_content i)) = (res, w')"
          using assms lc Inr \<open>is_void v\<close>
          by (auto simp: castReply_def split: prod.splits)
        from sendAndCancel_frame [OF this] show ?thesis
          using f1 i1 frame_trans by auto
      qed
    next
      case False
      show ?thesis
      proof (cases "s_isInfinite S")
        case inf: True
        show ?thesis
        proof (cases "s_values S")
          case None
          then have "w' = w1" using assms lc Inr False inf by (simp add: castReply_def)
          moreover have "frame S w w1"
            unfolding w1_def using None by (intro frame_logged_plain) simp
          ultimately show ?thesis using i1 by simp
        next
          case (Some a)
          then have "w' = w1\<lparr>cells := (cells w1)(a := cells w1 a @ [v])\<rparr>"
            using assms lc Inr False inf
            by (auto simp: castReply_def Let_def split: if_splits)
          then have "w' = w\<lparr>casts := casts w @ [(Str (m_content i), i, Inr v)],
                      cells := (cells w)(a := cells w a @ [v])\<rparr>"
            by (simp add: w1_def Inr)
          then show ?thesis
            using frame_logged_push [OF inf Some False] by simp
        qed
      next
        case False
        then have "w' = w1" using assms lc Inr \<open>\<not> is_void v\<close> by (simp add: castReply_def)
        moreover have "frame S w w1"
          unfolding w1_def using False by (intro frame_logged_plain) simp
        ultimately show ?thesis using i1 by simp
      qed
    qed
  qed
qed


lemma stopCheck_frame:
  assumes "stopCheck S w i n = (st, w')"
  shows "frame S w w' \<and> inbox w' = inbox w"
proof (cases "stopCheck S w i n = castReply S w i n")
  case True
  then have "castReply S w i n = (st, w')" using assms by simp
  then show ?thesis by (rule castReply_frame)
next
  case False
  then have "w' = w"
    using assms by (auto simp: stopCheck_def split: if_splits option.splits)
  then show ?thesis by (simp add: frame_refl)
qed

lemma cancelCheck_frame:
  assumes "cancelCheck S w i n = (st, w')"
  shows "frame S w w' \<and> inbox w' = inbox w"
proof (cases "cancelCheck S w i n = stopCheck S w i n")
  case True
  then have "stopCheck S w i n = (st, w')" using assms by simp
  then show ?thesis by (rule stopCheck_frame)
next
  case False
  then consider "w' = w"
    | r where "sendAndCancel S w (getText S w T_cancel (cancel (s_promptOptions S)) n i [])
                 = (r, w')"
    using assms by (auto simp: cancelCheck_def split: if_splits option.splits prod.splits)
  then show ?thesis
  proof cases
    case 1
    then show ?thesis by (simp add: frame_refl)
  next
    case 2
    from sendAndCancel_frame [OF this] show ?thesis by simp
  qed
qed

lemma afterReply_frame:
  assumes "afterReply S w i n = (st, w')"
  shows "frame S w w' \<and> inbox w' = inbox w"
proof (cases "afterReply S w i n = cancelCheck S w i n")
  case True
  then have "cancelCheck S w i n = (st, w')" using assms by simp
  then show ?thesis by (rule cancelCheck_frame)
next
  case False
  then have "w' = w"
    using assms by (auto simp: afterReply_def split: if_splits)
  then show ?thesis by (simp add: frame_refl)
qed

lemma frame_AddMessage: "frame S w (util_calls cs (w\<lparr>inbox := es\<rparr>))"
  unfolding frame_def util_calls_def
  by (auto intro: exI [of _ "[]"] simp: pushed_Nil)

lemma turn_frame:
  assumes "turn S w p n = (st, w')"
  shows "frame S w w'"
proof (cases "sendStart S w p n")
  case (Inl e)
  then show ?thesis using assms by (simp add: turn_def frame_refl)
next
  case (Inr sw)
  obtain s w1 where sw: "sw = (s, w1)" by (cases sw)
  have f1: "frame S w w1" using sendStart_frame Inr sw by blast
  obtain res rest where aw: "awaitMessages (reply_filter S s) (inbox w1) = (res, rest)"
    by (cases "awaitMessages (reply_filter S s) (inbox w1)")
  show ?thesis
  proof (cases res)
    case (Inl err)
    then have "turn S w p n
       = (Done (fst (onTimeout S (w1\<lparr>inbox := rest\<rparr>) p n)),
          snd (onTimeout S (w1\<lparr>inbox := rest\<rparr>) p n))"
      using turn_timeout Inr sw aw by simp
    then have "onTimeout S (w1\<lparr>inbox := rest\<rparr>) p n
        = (fst (onTimeout S (w1\<lparr>inbox := rest\<rparr>) p n), w')"
      using assms by simp
    then have "frame S (w1\<lparr>inbox := rest\<rparr>) w'"
      unfolding onTimeout_def using sendAndCancel_frame by blast
    then show ?thesis using f1 frame_inbox frame_trans by blast
  next
    case (Inr input)
    then have "afterReply S (util_calls [AddMessage input] (w1\<lparr>inbox := rest\<rparr>)) input n
        = (st, w')"
      using turn_reply \<open>sendStart S w p n = Inr sw\<close> sw aw assms by simp
    then have "frame S (util_calls [AddMessage input] (w1\<lparr>inbox := rest\<rparr>)) w'"
      using afterReply_frame by blast
    then show ?thesis using f1 frame_AddMessage frame_trans by blast
  qed
qed

lemma promptOne_frame: "frame S w (snd (promptOne S w p n))"
proof (induction S w p n rule: promptOne.induct)
  case (1 S w p n)
  obtain st w' where t: "turn S w p n = (st, w')" by (cases "turn S w p n")
  show ?case
  proof (cases st)
    case (Again m k)
    then show ?thesis
      using 1 [OF t [symmetric] Again] t turn_frame [OF t] frame_trans
      by (simp add: promptOne_Again)
  next
    case (Done r)
    then show ?thesis using t turn_frame [OF t] by (simp add: promptOne_Done)
  qed
qed

lemmas turn_defs = turn_def sendStart_def shouldSend_def values_length_def getText_def
  joined_def send_def util_calls_def reply_filter_def afterReply_def cancelCheck_def
  stopCheck_def castReply_def logged_cast_def sendAndCancel_def onTimeout_def

lemma promptOne_fst_Done:
  "fst (turn S w p n) = Done r \<Longrightarrow> promptOne S w p n = (r, snd (turn S w p n))"
  by (cases "turn S w p n") (simp add: promptOne_Done)

lemma demo_merged: "mergedOptions demo_argument = demo_options"
  by (simp add: mergedOptions_def demo_argument_def new_Argument_def a_handler_def
      demo_command_def demo_handler_def assign_def override_def no_options_def demo_options_def)

lemma demo_scope:
  "collect_scope deliver demo_argument demo_message [] w
     = \<lparr>s_this = demo_argument, s_deliver = deliver, s_message = demo_message,
        s_commandInput = [], s_promptOptions = demo_options, s_isInfinite = False,
        s_additionalRetry = 0, s_values = None\<rparr>"
  by (simp add: collect_scope_def demo_merged Let_def)
    (simp add: demo_options_def no_options_def)

lemma demo_entry:
  "collect_entry deliver demo_argument demo_message [] w = addPrompt 3 7 w"
  unfolding collect_entry_def demo_scope Let_def by (simp add: demo_message_def)

lemma demo_texts:
  "start demo_options = Some (Literal (Text ''start?''))"
  "retry demo_options = Some (Literal (Text ''retry?''))"
  "timeout demo_options = Some (Literal (Text ''timed out''))"
  "ended demo_options = Some (Literal (Text ''ended''))"
  "cancel demo_options = Some (Literal (Text ''cancelled''))"
  "modifyStart demo_options = None" "modifyRetry demo_options = None"
  "modifyTimeout demo_options = None" "modifyEnded demo_options = None"
  "modifyCancel demo_options = None"
  "retries demo_options = Some 1" "cancelWord demo_options = Some ''cancel''"
  "stopWord demo_options = Some ''stop''" "breakout demo_options = Some True"
  "limit demo_options = Some \<infinity>" "infinite_p demo_options = Some False"
  by (simp_all add: demo_options_def no_options_def)

lemma collect_entry_util: "util (collect_entry deliver A message commandInput w) = util w"
  by (simp add: collect_entry_def Let_def addPrompt_def split: option.splits)

lemma collect_fst:
  assumes "h_commandUtil (a_handler A) \<longrightarrow> util w \<noteq> None"
  shows "fst (collect deliver A message commandInput w)
       = fst (promptOne (collect_scope deliver A message commandInput w)
                (collect_entry deliver A message commandInput w) message
                (1 + s_additionalRetry (collect_scope deliver A message commandInput w)))"
proof -
  let ?S = "collect_scope deliver A message commandInput w"
  let ?e = "collect_entry deliver A message commandInput w"
  let ?p = "promptOne ?S ?e message (1 + s_additionalRetry ?S)"
  have "(util (snd ?p) = None) = (util w = None)"
    using promptOne_frame [of ?S ?e message "1 + s_additionalRetry ?S"]
    by (simp add: frame_def collect_entry_util)
  then show ?thesis
    using assms
    by (cases ?p) (auto simp: collect_def Let_def split: sum.splits option.splits)
qed

lemma collect_fst_Inr:
  assumes "fst (collect deliver A message commandInput w) = Inr r"
  shows "fst (promptOne (collect_scope deliver A message commandInput w)
                (collect_entry deliver A message commandInput w) message
                (1 + s_additionalRetry (collect_scope deliver A message commandInput w)))
         = Inr r"
  using assms
  by (cases "promptOne (collect_scope deliver A message commandInput w)
                (collect_entry deliver A message commandInput w) message
                (1 + s_additionalRetry (collect_scope deliver A message commandInput w))")
    (auto simp: collect_def Let_def split: sum.splits option.splits if_splits)

lemma collect_fields:
  "cells (snd (collect deliver A message commandInput w))
     = cells (snd (promptOne (collect_scope deliver A message commandInput w)
                (collect_entry deliver A message commandInput w) message
                (1 + s_additionalRetry (collect_scope deliver A message commandInput w))))"
  "args (snd (collect deliver A message commandInput w))
     = args (snd (promptOne (collect_scope deliver A message commandInput w)
                (collect_entry deliver A message commandInput w) message
                (1 + s_additionalRetry (collect_scope deliver A message commandInput w))))"
  "casts (snd (collect deliver A message commandInput w))
     = casts (snd (promptOne (collect_scope deliver A message commandInput w)
                (collect_entry deliver A message commandInput w) message
                (1 + s_additionalRetry (collect_scope deliver A message commandInput w))))"
  "outbox (snd (collect deliver A message commandInput w))
     = outbox (snd (promptOne (collect_scope deliver A message commandInput w)
                (collect_entry deliver A message commandInput w) message
                (1 + s_additionalRetry (collect_scope deliver A message commandInput w))))"
  by (cases "promptOne (collect_scope deliver A message commandInput w)
                (collect_entry deliver A message commandInput w) message
                (1 + s_additionalRetry (collect_scope deliver A message commandInput w))";
      auto simp: collect_def Let_def removePrompt_def split: sum.splits option.splits)+

subsection \<open>The session registry\<close>

text \<open>
  C1, as the code has it. Whenever \<^verbatim>\<open>collect\<close> returns (a value, the accumulated list,
  \<open>Cancel\<close> or \<open>Retry\<close>), the (channel, author) pair it registered on entry is
  unregistered again, and the registry is otherwise what it was.
\<close>

theorem collect_returns_unregistered:
  assumes "collect deliver A message commandInput w = (Inr r, w')"
  shows "(m_channel message, m_author message) \<notin> prompts w'
       \<and> prompts w' = prompts w - {(m_channel message, m_author message)}"
proof -
  let ?S = "collect_scope deliver A message commandInput w"
  let ?e = "collect_entry deliver A message commandInput w"
  let ?p = "promptOne ?S ?e message (1 + s_additionalRetry ?S)"
  have "prompts (snd ?p) = prompts ?e"
    using promptOne_frame [of ?S ?e message "1 + s_additionalRetry ?S"]
    by (simp add: frame_def)
  also have "\<dots> = insert (m_channel message, m_author message) (prompts w)"
    by (simp add: collect_entry_def Let_def addPrompt_def split: option.splits)
  finally have p: "prompts (snd ?p) = insert (m_channel message, m_author message) (prompts w)" .
  obtain x w1 where pe: "?p = (x, w1)" by (cases ?p)
  have "prompts w' = prompts w1 - {(m_channel message, m_author message)}"
    using assms pe
    by (auto simp: collect_def Let_def removePrompt_def
        split: sum.splits if_splits option.splits)
  then show ?thesis using p pe by auto
qed

text \<open>The theorem above for a session that nobody answers: it ends in \<open>Cancel\<close>.\<close>

theorem collect_returns_unregistered_witness:
  "fst (collect delivering demo_argument demo_message [] (demo_world [])) = Inr (Flag Cancel)
   \<and> (m_channel demo_message, m_author demo_message)
       \<notin> prompts (snd (collect delivering demo_argument demo_message [] (demo_world [])))"
proof -
  let ?S = "collect_scope delivering demo_argument demo_message [] (demo_world [])"
  let ?w = "addPrompt 3 7 (demo_world [])"
  have "fst (turn ?S ?w demo_message 1) = Done (Inr (Flag Cancel))"
    by (simp add: demo_scope turn_defs demo_texts delivering_def addPrompt_def demo_world_def)
  then have "fst (promptOne ?S ?w demo_message 1) = Inr (Flag Cancel)"
    by (simp add: promptOne_fst_Done)
  moreover have "h_commandUtil (a_handler demo_argument) \<longrightarrow> util (demo_world []) \<noteq> None"
    by (simp add: demo_argument_def new_Argument_def a_handler_def demo_command_def
        demo_handler_def)
  ultimately have f: "fst (collect delivering demo_argument demo_message [] (demo_world []))
      = Inr (Flag Cancel)"
    by (simp add: collect_fst demo_entry) (simp add: demo_scope)
  then have e: "collect delivering demo_argument demo_message [] (demo_world [])
      = (Inr (Flag Cancel), snd (collect delivering demo_argument demo_message [] (demo_world [])))"
    by (simp add: prod_eq_iff)
  show ?thesis
    using collect_returns_unregistered [OF e] f by blast
qed

text \<open>
  C1 as stated fails where the transport throws: the start text cannot be sent, the
  exception leaves \<^verbatim>\<open>collect\<close> through line 309, and the pair stays registered.
\<close>

theorem send_failure_keeps_registration:
  "fst (collect failing_first demo_argument demo_message [] (demo_world [])) = Inl TransportFailure
   \<and> (m_channel demo_message, m_author demo_message)
       \<in> prompts (snd (collect failing_first demo_argument demo_message [] (demo_world [])))"
proof -
  let ?S = "collect_scope failing_first demo_argument demo_message [] (demo_world [])"
  let ?w = "addPrompt 3 7 (demo_world [])"
  have "sendStart ?S ?w demo_message 1 = Inl TransportFailure"
    by (simp add: demo_scope sendStart_def shouldSend_def getText_def joined_def send_def
        demo_texts failing_first_def addPrompt_def demo_world_def)
  then have "promptOne ?S ?w demo_message 1 = (Inl TransportFailure, ?w)"
    by (simp add: turn_send_failed promptOne_Done)
  then have "collect failing_first demo_argument demo_message [] (demo_world [])
      = (Inl TransportFailure, ?w)"
    unfolding collect_def demo_entry Let_def by (simp add: demo_scope)
  then show ?thesis
    by (simp add: addPrompt_def demo_message_def)
qed

lemma collect_scope_sel:
  "s_this (collect_scope deliver A message commandInput w) = A"
  "s_deliver (collect_scope deliver A message commandInput w) = deliver"
  "s_message (collect_scope deliver A message commandInput w) = message"
  "s_commandInput (collect_scope deliver A message commandInput w) = commandInput"
  "s_promptOptions (collect_scope deliver A message commandInput w) = mergedOptions A"
  "s_additionalRetry (collect_scope deliver A message commandInput w)
     = (if commandInput \<noteq> [] then 1 else 0)"
  by (simp_all add: collect_scope_def Let_def)

lemma session_result:
  assumes "reaches S (e, m0, n0) (w, prev, rc)"
    and "turn S w prev rc = (Done r, w')"
  shows "promptOne S e m0 n0 = (r, w')"
  using reaches_promptOne [OF assms(1)] assms(2) by (simp add: promptOne_Done)

lemma demo_quit_scope:
  "collect_scope deliver demo_quit_argument demo_message [] (demo_world es)
     = \<lparr>s_this = demo_quit_argument, s_deliver = deliver, s_message = demo_message,
        s_commandInput = [],
        s_promptOptions = demo_options\<lparr>cancelWord := Some ''!quit'',
          stopWord := Some ''!quit'', infinite_p := Some True\<rparr>,
        s_isInfinite = True, s_additionalRetry = 0, s_values = Some 0\<rparr>"
  unfolding collect_scope_def Let_def
  by (simp add: mergedOptions_def demo_quit_argument_def new_Argument_def a_handler_def
      demo_command_def demo_handler_def assign_def override_def no_options_def
      demo_options_def demo_world_def)

lemma demo_quit_entry:
  "collect_entry deliver demo_quit_argument demo_message [] (demo_world es)
     = \<lparr>inbox = es, outbox = [], util = None, prompts = {(3, 7)},
        args = [''n'' \<mapsto> Ref 0], cells = (\<lambda>a. []), next_cell = 1, casts = []\<rparr>"
  unfolding collect_entry_def Let_def demo_quit_scope
  by (simp add: demo_world_def addPrompt_def demo_message_def demo_quit_argument_def
      new_Argument_def fun_eq_iff)

subsection \<open>Breakout\<close>

text \<open>
  C5. Take any turn of a session of \<^verbatim>\<open>collect\<close> whose prompt options have \<^verbatim>\<open>breakout\<close>
  set: \<open>(w, prev, rc)\<close> is the state, \<^verbatim>\<open>prevMessage\<close> and \<^verbatim>\<open>retryCount\<close> of that call of
  \<^verbatim>\<open>promptOne\<close>, \<open>w1\<close> the state after its prompt was sent, \<open>input\<close> the reply it awaited.
  If the reply parses as a command, \<^verbatim>\<open>collect\<close> returns \<open>Retry input\<close>, whatever the text of
  the reply, the cancel word and the stop word are. The history of casts is the one the
  turn started with, so the reply was not cast, and nothing was sent after the prompt, so
  no cancel text went out.
\<close>

theorem breakout_before_checks:
  assumes "S = collect_scope deliver A message commandInput u"
    and "h_commandUtil (a_handler A) \<longrightarrow> util u \<noteq> None"
    and "reaches S (collect_entry deliver A message commandInput u, message,
           1 + s_additionalRetry S) (w, prev, rc)"
    and "sendStart S w prev rc = Inr (sentStart, w1)"
    and "awaitMessages (reply_filter S sentStart) (inbox w1) = (Inr input, rest)"
    and "breakout (s_promptOptions S) = Some True"
    and "h_parseCommand (a_handler A) input"
  shows "fst (collect deliver A message commandInput u) = Inr (Flag (Retry input))
       \<and> casts (snd (collect deliver A message commandInput u)) = casts w
       \<and> outbox (snd (collect deliver A message commandInput u)) = outbox w1"
proof -
  let ?w2 = "util_calls [AddMessage input] (w1\<lparr>inbox := rest\<rparr>)"
  have th: "s_this S = A" using assms(1) by (simp add: collect_scope_sel)
  have "turn S w prev rc = afterReply S ?w2 input rc"
    using turn_reply [OF assms(4,5)] .
  also have "\<dots> = (Done (Inr (Flag (Retry input))), ?w2)"
    using assms(6,7) th by (simp add: afterReply_def)
  finally have "promptOne S (collect_entry deliver A message commandInput u) message
      (1 + s_additionalRetry S) = (Inr (Flag (Retry input)), ?w2)"
    using session_result [OF assms(3)] by simp
  moreover have "casts ?w2 = casts w" "outbox ?w2 = outbox w1"
    using sendStart_frame [OF assms(4)] by (simp_all add: util_calls_def)
  ultimately show ?thesis
    using collect_fst [OF assms(2), of deliver message commandInput]
      collect_fields(3,4) [of deliver A message commandInput u] assms(1)
    by simp
qed

text \<open>
  The theorem above on the first turn of an infinite prompt whose cancel word and stop
  word are both \<^verbatim>\<open>'!quit'\<close>, answered with \<^verbatim>\<open>'!quit'\<close>.
\<close>

theorem breakout_before_checks_witness:
  "fst (collect delivering demo_quit_argument demo_message []
          (demo_world [user_says 1 ''!quit'']))
     = Inr (Flag (Retry \<lparr>m_id = 1, m_author = 7, m_channel = 3, m_content = ''!quit''\<rparr>))
   \<and> casts (snd (collect delivering demo_quit_argument demo_message []
                   (demo_world [user_says 1 ''!quit'']))) = []"
proof -
  let ?u = "demo_world [user_says 1 ''!quit'']"
  let ?S = "collect_scope delivering demo_quit_argument demo_message [] ?u"
  let ?e = "collect_entry delivering demo_quit_argument demo_message [] ?u"
  let ?sent = "\<lparr>m_id = 1000, m_author = 99, m_channel = 3, m_content = []\<rparr>"
  let ?input = "\<lparr>m_id = 1, m_author = 7, m_channel = 3, m_content = ''!quit''\<rparr>"
  let ?w1 = "?e\<lparr>outbox := [(ViaChannel, Text ''start?'')]\<rparr>"
  have wf: "h_commandUtil (a_handler demo_quit_argument) \<longrightarrow> util ?u \<noteq> None"
    by (simp add: demo_quit_argument_def new_Argument_def a_handler_def demo_command_def
        demo_handler_def)
  have n: "1 + s_additionalRetry ?S = 1"
    by (simp add: demo_quit_scope)
  have r: "reaches ?S (?e, demo_message, 1 + s_additionalRetry ?S) (?e, demo_message, 1)"
    unfolding n by (rule reaches.here)
  have s: "sendStart ?S ?e demo_message 1 = Inr (Some ?sent, ?w1)"
    unfolding demo_quit_scope demo_quit_entry
    by (simp add: sendStart_def shouldSend_def values_length_def getText_def joined_def
        send_def util_calls_def delivering_def demo_options_def no_options_def)
  have a: "awaitMessages (reply_filter ?S (Some ?sent)) (inbox ?w1) = (Inr ?input, [])"
    unfolding demo_quit_scope demo_quit_entry
    by (simp add: reply_filter_def user_says_def demo_message_def)
  have b: "breakout (s_promptOptions ?S) = Some True"
    by (simp add: demo_quit_scope demo_options_def no_options_def)
  have c: "h_parseCommand (a_handler demo_quit_argument) ?input"
    by (simp add: demo_quit_argument_def new_Argument_def a_handler_def demo_command_def
        demo_handler_def)
  have k: "casts ?e = []"
    by (simp add: demo_quit_entry)
  show ?thesis
    using breakout_before_checks [OF refl wf r s a b c] k by simp
qed

subsection \<open>Timeout\<close>

text \<open>
  C6. Take any turn of a session of \<^verbatim>\<open>collect\<close> in which the await fails (the time limit
  ends, or the transport breaks: the \<^verbatim>\<open>catch\<close> of line 252 takes both). Then \<^verbatim>\<open>collect\<close>
  never returns a value or the list; and when the timeout text is empty or its send
  succeeds (and \<^verbatim>\<open>message.util\<close> exists where the handler uses it), \<^verbatim>\<open>collect\<close> returns
  \<open>Cancel\<close>, the timeout text being the one message sent after the prompt.
\<close>

theorem timeout_cancels:
  assumes "S = collect_scope deliver A message commandInput u"
    and "reaches S (collect_entry deliver A message commandInput u, message,
           1 + s_additionalRetry S) (w, prev, rc)"
    and "sendStart S w prev rc = Inr (sentStart, w1)"
    and "awaitMessages (reply_filter S sentStart) (inbox w1) = (Inl err, rest)"
    and "text = getText S (w1\<lparr>inbox := rest\<rparr>) T_timeout (timeout (s_promptOptions S)) rc prev []"
  shows "(\<forall>x. fst (collect deliver A message commandInput u) \<noteq> Inr (Value x))
       \<and> ((h_commandUtil (a_handler A) \<longrightarrow> util u \<noteq> None)
            \<and> (content_truthy text
                 \<longrightarrow> (\<exists>sent. deliver (length (outbox w1)) ViaChannel text = Inr sent))
          \<longrightarrow> fst (collect deliver A message commandInput u) = Inr (Flag Cancel)
              \<and> outbox (snd (collect deliver A message commandInput u))
                  = outbox w1 @ (if content_truthy text then [(ViaChannel, text)] else []))"
proof -
  let ?w1 = "w1\<lparr>inbox := rest\<rparr>"
  let ?p = "promptOne S (collect_entry deliver A message commandInput u) message
      (1 + s_additionalRetry S)"
  obtain r w' where sc: "sendAndCancel S ?w1 text = (r, w')"
    by (cases "sendAndCancel S ?w1 text")
  have d: "s_deliver S = deliver" using assms(1) by (simp add: collect_scope_sel)
  have "turn S w prev rc = (Done r, w')"
    using turn_timeout [OF assms(3,4)] sc assms(5) by (simp add: onTimeout_def)
  then have p: "?p = (r, w')"
    using session_result [OF assms(2)] by simp
  have r: "r = Inr (Flag Cancel) \<or> (\<exists>e. r = Inl e)"
    using sendAndCancel_frame [OF sc] by blast
  have neg: "\<forall>x. fst (collect deliver A message commandInput u) \<noteq> Inr (Value x)"
  proof (intro allI notI)
    fix x assume "fst (collect deliver A message commandInput u) = Inr (Value x)"
    from collect_fst_Inr [OF this] have "r = Inr (Value x)"
      using p assms(1) by simp
    then show False using r by auto
  qed
  have pos: "fst (collect deliver A message commandInput u) = Inr (Flag Cancel)
              \<and> outbox (snd (collect deliver A message commandInput u))
                  = outbox w1 @ (if content_truthy text then [(ViaChannel, text)] else [])"
    if wf: "h_commandUtil (a_handler A) \<longrightarrow> util u \<noteq> None"
      and ok: "content_truthy text
                 \<longrightarrow> (\<exists>sent. deliver (length (outbox w1)) ViaChannel text = Inr sent)"
  proof -
    have "r = Inr (Flag Cancel)
        \<and> outbox w' = outbox w1 @ (if content_truthy text then [(ViaChannel, text)] else [])"
      using sc ok d
      by (auto simp: sendAndCancel_def send_def util_calls_def split: if_splits)
    then show ?thesis
      using collect_fst [OF wf, of deliver message commandInput]
        collect_fields(4) [of deliver A message commandInput u] assms(1) p
      by simp
  qed
  show ?thesis using neg pos by blast
qed

text \<open>The theorem above on the first turn of a session whose time limit ends at once.\<close>

theorem timeout_cancels_witness:
  "fst (collect delivering demo_argument demo_message [] (demo_world [TimeUp, user_says 1 ''5'']))
     = Inr (Flag Cancel)
   \<and> outbox (snd (collect delivering demo_argument demo_message []
                    (demo_world [TimeUp, user_says 1 ''5''])))
     = [(ViaChannel, Text ''start?''), (ViaChannel, Text ''timed out'')]"
proof -
  let ?u = "demo_world [TimeUp, user_says 1 ''5'']"
  let ?S = "collect_scope delivering demo_argument demo_message [] ?u"
  let ?e = "collect_entry delivering demo_argument demo_message [] ?u"
  let ?sent = "\<lparr>m_id = 1000, m_author = 99, m_channel = 3, m_content = []\<rparr>"
  let ?w1 = "?e\<lparr>outbox := [(ViaChannel, Text ''start?'')]\<rparr>"
  have wf: "h_commandUtil (a_handler demo_argument) \<longrightarrow> util ?u \<noteq> None"
    by (simp add: demo_argument_def new_Argument_def a_handler_def demo_command_def
        demo_handler_def)
  have n: "1 + s_additionalRetry ?S = 1"
    by (simp add: demo_scope)
  have r: "reaches ?S (?e, demo_message, 1 + s_additionalRetry ?S) (?e, demo_message, 1)"
    unfolding n by (rule reaches.here)
  have s: "sendStart ?S ?e demo_message 1 = Inr (Some ?sent, ?w1)"
    unfolding demo_scope demo_entry
    by (simp add: sendStart_def shouldSend_def getText_def joined_def send_def util_calls_def
        delivering_def demo_texts addPrompt_def demo_world_def)
  have a: "awaitMessages (reply_filter ?S (Some ?sent)) (inbox ?w1)
             = (Inl TimeElapsed, [user_says 1 ''5''])"
    unfolding demo_scope demo_entry
    by (simp add: addPrompt_def demo_world_def)
  have t: "Text ''timed out''
             = getText ?S (?w1\<lparr>inbox := [user_says 1 ''5'']\<rparr>) T_timeout
                 (timeout (s_promptOptions ?S)) 1 demo_message []"
    unfolding demo_scope by (simp add: getText_def joined_def demo_texts)
  have d: "content_truthy (Text ''timed out'')
             \<longrightarrow> (\<exists>sent. delivering (length (outbox ?w1)) ViaChannel (Text ''timed out'')
                          = Inr sent)"
    by (simp add: delivering_def)
  have o: "outbox ?w1 = [(ViaChannel, Text ''start?'')]"
    by simp
  show ?thesis
    using timeout_cancels [OF refl r s a t] wf d o by simp
qed

subsection \<open>Turns that return a value\<close>

lemma sendAndCancel_no_value: "sendAndCancel S w t \<noteq> (Inr (Value x), w')"
  using sendAndCancel_frame [of S w t "Inr (Value x)" w'] by auto

lemma castReply_Value:
  assumes "castReply S w i n = (Done (Inr (Value x)), w')"
  shows "\<exists>v. arg_cast (s_this S) (Str (m_content i)) i (view w) = Inr v \<and> \<not> is_void v
      \<and> (if s_isInfinite S
          then (\<exists>a. s_values S = Some a \<and> x = Ref a
                 \<and> \<not> (case limit (s_promptOptions S) of
                         Some l \<Rightarrow> enat (Suc (length (cells w a))) < l | None \<Rightarrow> False))
          else x = v)"
proof -
  define r where "r = arg_cast (s_this S) (Str (m_content i)) i (view w)"
  define w1 where "w1 = w\<lparr>casts := casts w @ [(Str (m_content i), i, r)]\<rparr>"
  have lc: "logged_cast (s_this S) (m_content i) i w = (r, w1)"
    by (simp add: logged_cast_def r_def w1_def Let_def)
  show ?thesis
  proof (cases r)
    case (Inl e)
    then show ?thesis using assms lc by (simp add: castReply_def)
  next
    case (Inr v)
    have nv: "\<not> is_void v"
    proof
      assume "is_void v"
      then show False
        using assms lc Inr sendAndCancel_no_value
        by (auto simp: castReply_def split: if_splits prod.splits)
    qed
    show ?thesis
    proof (cases "s_isInfinite S")
      case True
      then show ?thesis
        using assms lc Inr nv
        by (auto simp: castReply_def Let_def r_def w1_def split: option.splits if_splits)
    next
      case False
      then show ?thesis
        using assms lc Inr nv by (auto simp: castReply_def r_def)
    qed
  qed
qed

lemma stopCheck_Value:
  assumes "stopCheck S w i n = (Done (Inr (Value x)), w')"
    and "s_isInfinite S" and "s_values S = Some a"
    and "stopWord (s_promptOptions S) = Some sw"
  shows "(toLowerCase (m_content i) = toLowerCase sw \<and> cells w a \<noteq> [] \<and> x = Ref a \<and> w' = w)
       \<or> (toLowerCase (m_content i) \<noteq> toLowerCase sw
           \<and> castReply S w i n = (Done (Inr (Value x)), w'))"
  using assms by (auto simp: stopCheck_def split: if_splits)

lemma cancelCheck_Value:
  assumes "cancelCheck S w i n = (Done (Inr (Value x)), w')"
  shows "stopCheck S w i n = (Done (Inr (Value x)), w')"
  using assms sendAndCancel_no_value
  by (auto simp: cancelCheck_def split: if_splits option.splits prod.splits)

lemma afterReply_Value:
  assumes "afterReply S w i n = (Done (Inr (Value x)), w')"
  shows "cancelCheck S w i n = (Done (Inr (Value x)), w')"
  using assms by (auto simp: afterReply_def split: if_splits)

lemma turn_Value:
  assumes "turn S w p n = (Done (Inr (Value x)), w')"
  shows "\<exists>sentStart w1 input rest.
           sendStart S w p n = Inr (sentStart, w1)
         \<and> awaitMessages (reply_filter S sentStart) (inbox w1) = (Inr input, rest)
         \<and> stopCheck S (util_calls [AddMessage input] (w1\<lparr>inbox := rest\<rparr>)) input n
             = (Done (Inr (Value x)), w')"
proof (cases "sendStart S w p n")
  case (Inl e)
  then show ?thesis using assms by (simp add: turn_def)
next
  case (Inr sw)
  obtain s w1 where sw: "sw = (s, w1)" by (cases sw)
  obtain res rest where aw: "awaitMessages (reply_filter S s) (inbox w1) = (res, rest)"
    by (cases "awaitMessages (reply_filter S s) (inbox w1)")
  show ?thesis
  proof (cases res)
    case (Inl err)
    then have "turn S w p n
       = (Done (fst (onTimeout S (w1\<lparr>inbox := rest\<rparr>) p n)),
          snd (onTimeout S (w1\<lparr>inbox := rest\<rparr>) p n))"
      using turn_timeout Inr sw aw by simp
    then have "sendAndCancel S (w1\<lparr>inbox := rest\<rparr>)
                 (getText S (w1\<lparr>inbox := rest\<rparr>) T_timeout (timeout (s_promptOptions S)) n p [])
               = (Inr (Value x), w')"
      using assms by (simp add: onTimeout_def prod_eq_iff)
    then show ?thesis using sendAndCancel_no_value by blast
  next
    case (Inr input)
    then have "afterReply S (util_calls [AddMessage input] (w1\<lparr>inbox := rest\<rparr>)) input n
        = (Done (Inr (Value x)), w')"
      using turn_reply \<open>sendStart S w p n = Inr sw\<close> sw aw assms by simp
    then show ?thesis
      using afterReply_Value cancelCheck_Value \<open>sendStart S w p n = Inr sw\<close> sw aw Inr
      by blast
  qed
qed


lemma stopCheck_Value_ref:
  assumes "stopCheck S w i n = (Done (Inr (Value x)), w')"
    and "s_isInfinite S" and "s_values S = Some a"
  shows "x = Ref a"
proof (cases "stopCheck S w i n = castReply S w i n")
  case True
  then show ?thesis using castReply_Value [of S w i n x w'] assms by auto
next
  case False
  then show ?thesis
    using assms by (auto simp: stopCheck_def split: option.splits if_splits)
qed

lemma promptOne_Value_ref:
  assumes "fst (promptOne S w p n) = Inr (Value x)"
    and "s_isInfinite S" and "s_values S = Some a"
  shows "x = Ref a"
proof -
  obtain w1 p1 n1 where
    "turn S w1 p1 n1 = (Done (fst (promptOne S w p n)), snd (promptOne S w p n))"
    using promptOne_last_turn by blast
  then have "turn S w1 p1 n1 = (Done (Inr (Value x)), snd (promptOne S w p n))"
    using assms(1) by simp
  from turn_Value [OF this] show ?thesis
    using stopCheck_Value_ref assms(2,3) by blast
qed

lemma collect_scope_infinite:
  assumes "infinite_p (mergedOptions A) = Some True"
    and "a_match A = SEPARATE \<longrightarrow> commandInput = []"
  shows "s_isInfinite (collect_scope deliver A message commandInput w)"
    and "s_values (collect_scope deliver A message commandInput w) = Some (next_cell w)"
  using assms by (simp_all add: collect_scope_def Let_def)

lemmas demo_defs = demo_options_def no_options_def demo_handler_def demo_command_def
  demo_message_def user_says_def delivering_def demo_world_def demo_resolver_def
  integer_caster_def digit_of_def new_Argument_def a_handler_def bind_this_def
  addPrompt_def

lemmas cast_defs = arg_cast_def awaited_def cast_def non_void_or_null_def is_void_def view_def
  toLowerCase_def lower_char_def

lemma demo_list_scope:
  "collect_scope deliver demo_list_argument demo_message [] (demo_world es)
     = \<lparr>s_this = demo_list_argument, s_deliver = deliver, s_message = demo_message,
        s_commandInput = [],
        s_promptOptions = demo_options\<lparr>infinite_p := Some True, limit := Some 3\<rparr>,
        s_isInfinite = True, s_additionalRetry = 0, s_values = Some 0\<rparr>"
  unfolding collect_scope_def Let_def
  by (simp add: mergedOptions_def demo_list_argument_def new_Argument_def a_handler_def
      demo_command_def demo_handler_def assign_def override_def no_options_def
      demo_options_def demo_world_def)

lemma demo_list_entry:
  "collect_entry deliver demo_list_argument demo_message [] (demo_world es)
     = \<lparr>inbox = es, outbox = [], util = None, prompts = {(3, 7)},
        args = [''n'' \<mapsto> Ref 0], cells = (\<lambda>a. []), next_cell = 1, casts = []\<rparr>"
  unfolding collect_entry_def Let_def demo_list_scope
  by (simp add: demo_world_def addPrompt_def demo_message_def demo_list_argument_def
      new_Argument_def fun_eq_iff)

lemma demo_list_turn1:
  "turn (collect_scope delivering demo_list_argument demo_message [] (demo_world es0))
     \<lparr>inbox = user_says 1 ''1'' # es, outbox = [], util = None, prompts = {(3, 7)},
      args = [''n'' \<mapsto> Ref 0], cells = (\<lambda>a. []), next_cell = 1, casts = []\<rparr>
     demo_message 1
   = (Again demo_message 1,
      \<lparr>inbox = es, outbox = [(ViaChannel, Text ''start?'')], util = None, prompts = {(3, 7)},
       args = [''n'' \<mapsto> Ref 0], cells = (\<lambda>a. [])(0 := [Num 1]), next_cell = 1,
       casts = [(Str ''1'', \<lparr>m_id = 1, m_author = 7, m_channel = 3, m_content = ''1''\<rparr>,
                 Inr (Num 1))]\<rparr>)"
  unfolding demo_list_scope
  by (simp add: turn_defs demo_list_argument_def demo_defs cast_defs Let_def numeral_eq_enat)


lemma demo_list_turn_timeout:
  "turn (collect_scope delivering demo_list_argument demo_message [] (demo_world es0))
     \<lparr>inbox = TimeUp # es, outbox = [(ViaChannel, Text ''start?'')], util = None,
      prompts = {(3, 7)}, args = [''n'' \<mapsto> Ref 0], cells = (\<lambda>a. [])(0 := [Num 1]),
      next_cell = 1,
      casts = [(Str ''1'', \<lparr>m_id = 1, m_author = 7, m_channel = 3, m_content = ''1''\<rparr>,
                 Inr (Num 1))]\<rparr>
     demo_message 1
   = (Done (Inr (Flag Cancel)),
      \<lparr>inbox = es, outbox = [(ViaChannel, Text ''start?''), (ViaChannel, Text ''timed out'')],
       util = None, prompts = {(3, 7)}, args = [''n'' \<mapsto> Ref 0],
       cells = (\<lambda>a. [])(0 := [Num 1]), next_cell = 1,
       casts = [(Str ''1'', \<lparr>m_id = 1, m_author = 7, m_channel = 3, m_content = ''1''\<rparr>,
                 Inr (Num 1))]\<rparr>)"
  unfolding demo_list_scope
  by (simp add: turn_defs demo_list_argument_def demo_defs cast_defs Let_def numeral_eq_enat)

subsection \<open>The accumulated values and \<^verbatim>\<open>args\<close>\<close>

text \<open>
  C10. In an infinite-mode call of \<^verbatim>\<open>collect\<close> (the merged options have \<^verbatim>\<open>infinite\<close> set,
  and the match is not \<^verbatim>\<open>separate\<close> with a seed phrase), whatever the exit is - the list,
  \<open>Cancel\<close>, \<open>Retry\<close> or an exception - \<^verbatim>\<open>args[this.id]\<close> refers on exit to the array
  allocated on entry, that array holds exactly the non-void results of the casts the call
  made, in order, and that is what a reader of \<^verbatim>\<open>args\<close> sees. A list that is returned is
  this same array.
\<close>

theorem values_shared_with_args:
  assumes "infinite_p (mergedOptions A) = Some True"
    and "a_match A = SEPARATE \<longrightarrow> commandInput = []"
  shows "args (snd (collect deliver A message commandInput w)) (a_id A)
           = Some (Ref (next_cell w))
       \<and> cells (snd (collect deliver A message commandInput w)) (next_cell w)
           = accepted (drop (length (casts w))
                         (casts (snd (collect deliver A message commandInput w))))
       \<and> view (snd (collect deliver A message commandInput w)) (a_id A)
           = Some (Arr (accepted (drop (length (casts w))
                                    (casts (snd (collect deliver A message commandInput w))))))
       \<and> (\<forall>x. fst (collect deliver A message commandInput w) = Inr (Value x)
              \<longrightarrow> x = Ref (next_cell w))"
proof -
  let ?S = "collect_scope deliver A message commandInput w"
  let ?e = "collect_entry deliver A message commandInput w"
  let ?p = "promptOne ?S ?e message (1 + s_additionalRetry ?S)"
  let ?a = "next_cell w"
  note inf = collect_scope_infinite [OF assms, of deliver message w]
  have e: "args ?e = (args w)(a_id A \<mapsto> Ref ?a)" "cells ?e ?a = []" "casts ?e = casts w"
    using inf by (simp_all add: collect_entry_def Let_def addPrompt_def)
  obtain new where new: "casts (snd ?p) = casts ?e @ new"
      "cells (snd ?p) = pushed ?S new (cells ?e)" and ar: "args (snd ?p) = args ?e"
    using promptOne_frame [of ?S ?e message "1 + s_additionalRetry ?S"]
    by (auto simp: frame_def)
  have c: "cells (snd ?p) ?a = accepted (drop (length (casts w)) (casts (snd ?p)))"
    using new e inf by (simp add: pushed_def)
  have a: "args (snd ?p) (a_id A) = Some (Ref ?a)"
    using ar e by simp
  have v: "\<forall>x. fst (collect deliver A message commandInput w) = Inr (Value x)
              \<longrightarrow> x = Ref ?a"
    using collect_fst_Inr promptOne_Value_ref inf by blast
  show ?thesis
    using a c v by (simp add: collect_fields view_def)
qed

text \<open>
  The theorem above for a session that accepts \<^verbatim>\<open>'1'\<close> and then runs into the time limit:
  \<^verbatim>\<open>collect\<close> returns \<open>Cancel\<close>, and \<^verbatim>\<open>args.n\<close> is \<^verbatim>\<open>[1]\<close>.
\<close>

theorem values_shared_with_args_witness:
  "fst (collect delivering demo_list_argument demo_message []
          (demo_world [user_says 1 ''1'', TimeUp])) = Inr (Flag Cancel)
   \<and> view (snd (collect delivering demo_list_argument demo_message []
                  (demo_world [user_says 1 ''1'', TimeUp]))) ''n''
       = Some (Arr [Num 1])"
proof -
  let ?u = "demo_world [user_says 1 ''1'', TimeUp]"
  let ?S = "collect_scope delivering demo_list_argument demo_message [] ?u"
  let ?e = "collect_entry delivering demo_list_argument demo_message [] ?u"
  let ?c = "[(Str ''1'', \<lparr>m_id = 1, m_author = 7, m_channel = 3, m_content = ''1''\<rparr>,
              Inr (Num 1))]"
  have i: "infinite_p (mergedOptions demo_list_argument) = Some True"
    by (simp add: mergedOptions_def demo_list_argument_def new_Argument_def a_handler_def
        demo_command_def demo_handler_def assign_def override_def no_options_def
        demo_options_def)
  have m: "a_match demo_list_argument = SEPARATE \<longrightarrow> ([]::string) = []"
    by simp
  have wf: "h_commandUtil (a_handler demo_list_argument) \<longrightarrow> util ?u \<noteq> None"
    by (simp add: demo_list_argument_def new_Argument_def a_handler_def demo_command_def
        demo_handler_def)
  have n: "1 + s_additionalRetry ?S = 1"
    by (simp add: demo_list_scope)
  have p: "promptOne ?S ?e demo_message 1
      = (Inr (Flag Cancel),
         \<lparr>inbox = [], outbox = [(ViaChannel, Text ''start?''), (ViaChannel, Text ''timed out'')],
          util = None, prompts = {(3, 7)}, args = [''n'' \<mapsto> Ref 0],
          cells = (\<lambda>a. [])(0 := [Num 1]), next_cell = 1, casts = ?c\<rparr>)"
    unfolding demo_list_entry
    by (subst promptOne_Again [OF demo_list_turn1])
      (rule promptOne_Done [OF demo_list_turn_timeout])
  have f: "fst (collect delivering demo_list_argument demo_message [] ?u) = Inr (Flag Cancel)"
    using collect_fst [OF wf, of delivering demo_message "[]"] p n by simp
  have c: "casts (snd (collect delivering demo_list_argument demo_message [] ?u)) = ?c"
    using collect_fields(3) [of delivering demo_list_argument demo_message "[]" ?u] p n
    by simp
  have k: "casts ?u = []" "a_id demo_list_argument = ''n''"
    by (simp_all add: demo_world_def demo_list_argument_def new_Argument_def)
  show ?thesis
    using values_shared_with_args [OF i m, of delivering demo_message ?u] f c k
    by (simp add: is_void_def)
qed

subsection \<open>Turns that go on, and the text of the prompt\<close>

lemma castReply_Again:
  assumes "castReply S w i n = (Again m k, w')"
  shows "(m = i \<and> k = Suc n) \<or> (s_isInfinite S \<and> m = s_message S \<and> k = 1)"
proof -
  define r where "r = arg_cast (s_this S) (Str (m_content i)) i (view w)"
  define w1 where "w1 = w\<lparr>casts := casts w @ [(Str (m_content i), i, r)]\<rparr>"
  have lc: "logged_cast (s_this S) (m_content i) i w = (r, w1)"
    by (simp add: logged_cast_def r_def w1_def Let_def)
  show ?thesis
  proof (cases r)
    case (Inl e)
    then show ?thesis using assms lc by (simp add: castReply_def)
  next
    case (Inr v)
    show ?thesis
    proof (cases "is_void v")
      case True
      then show ?thesis
        using assms lc Inr by (auto simp: castReply_def split: if_splits prod.splits)
    next
      case False
      then show ?thesis
        using assms lc Inr
        by (auto simp: castReply_def Let_def split: if_splits option.splits)
    qed
  qed
qed

lemma stopCheck_Again:
  assumes "stopCheck S w i n = (Again m k, w')"
  shows "(m = i \<and> k = Suc n) \<or> (s_isInfinite S \<and> m = s_message S \<and> k = 1)"
proof (cases "stopCheck S w i n = castReply S w i n")
  case True
  then show ?thesis using castReply_Again [of S w i n m k w'] assms by simp
next
  case False
  then show ?thesis
    using assms by (auto simp: stopCheck_def split: option.splits if_splits)
qed

lemma afterReply_Again:
  assumes "afterReply S w i n = (Again m k, w')"
  shows "stopCheck S w i n = (Again m k, w')"
  using assms
  by (auto simp: afterReply_def cancelCheck_def split: if_splits option.splits prod.splits)

lemma turn_Again:
  assumes "turn S w p n = (Again m k, w')"
  shows "(k = Suc n) \<or> (s_isInfinite S \<and> m = s_message S \<and> k = 1)"
proof (cases "sendStart S w p n")
  case (Inl e)
  then show ?thesis using assms by (simp add: turn_def)
next
  case (Inr sw)
  obtain s w1 where sw: "sw = (s, w1)" by (cases sw)
  obtain res rest where aw: "awaitMessages (reply_filter S s) (inbox w1) = (res, rest)"
    by (cases "awaitMessages (reply_filter S s) (inbox w1)")
  show ?thesis
  proof (cases res)
    case (Inl err)
    then show ?thesis
      using turn_timeout [of S w p n s w1 err rest] Inr sw aw assms by simp
  next
    case (Inr input)
    then have "afterReply S (util_calls [AddMessage input] (w1\<lparr>inbox := rest\<rparr>)) input n
        = (Again m k, w')"
      using turn_reply \<open>sendStart S w p n = Inr sw\<close> sw aw assms by simp
    then show ?thesis
      using afterReply_Again stopCheck_Again by blast
  qed
qed

lemma reaches_retryCount:
  assumes "reaches S c c'" and "\<not> s_isInfinite S"
  shows "snd (snd c) \<le> snd (snd c')"
  using assms
proof (induction rule: reaches.induct)
  case (here c)
  show ?case by simp
next
  case (later w prevMessage retryCount m n w' c)
  then show ?case using turn_Again [of S w prevMessage retryCount m n w'] by auto
qed

lemma sendStart_outbox:
  assumes "sendStart S w prev rc = Inr (sentStart, w1)"
    and "prevInput = (if rc \<le> 1 + s_additionalRetry S then s_commandInput S
                      else m_content prev)"
    and "text = (if rc = 1 then getText S w T_start (start (s_promptOptions S)) rc prev prevInput
                 else getText S w T_retry (retry (s_promptOptions S)) rc prev prevInput)"
  shows "outbox w1 = (if shouldSend S w rc = Inr True \<and> content_truthy text
                      then outbox w @ [(if util w \<noteq> None then ViaUtil else ViaChannel, text)]
                      else outbox w)"
  using assms
  by (auto simp: sendStart_def send_def util_calls_def Let_def
      split: sum.splits if_splits prod.splits)

lemma demo_seeded_scope:
  "commandInput \<noteq> [] \<Longrightarrow> collect_scope deliver demo_argument demo_message commandInput w
     = \<lparr>s_this = demo_argument, s_deliver = deliver, s_message = demo_message,
        s_commandInput = commandInput, s_promptOptions = demo_options, s_isInfinite = False,
        s_additionalRetry = 1, s_values = None\<rparr>"
  by (simp add: collect_scope_def demo_merged Let_def)
    (simp add: demo_options_def no_options_def)

lemma demo_seeded_entry:
  "commandInput \<noteq> []
   \<Longrightarrow> collect_entry deliver demo_argument demo_message commandInput w = addPrompt 3 7 w"
proof -
  assume "commandInput \<noteq> []"
  then have "s_values (collect_scope deliver demo_argument demo_message commandInput w) = None"
    by (simp add: demo_seeded_scope)
  then show ?thesis
    unfolding collect_entry_def Let_def by (simp add: demo_message_def)
qed

lemma castReply_Again_values:
  assumes "castReply S w i n = (Again m k, w')" and "k \<noteq> Suc n"
  shows "\<exists>a. s_values S = Some a \<and> cells w' a \<noteq> []"
proof -
  define r where "r = arg_cast (s_this S) (Str (m_content i)) i (view w)"
  define w1 where "w1 = w\<lparr>casts := casts w @ [(Str (m_content i), i, r)]\<rparr>"
  have lc: "logged_cast (s_this S) (m_content i) i w = (r, w1)"
    by (simp add: logged_cast_def r_def w1_def Let_def)
  show ?thesis
  proof (cases r)
    case (Inl e)
    then show ?thesis using assms lc by (simp add: castReply_def)
  next
    case (Inr v)
    show ?thesis
    proof (cases "is_void v")
      case True
      then show ?thesis
        using assms lc Inr by (auto simp: castReply_def split: if_splits prod.splits)
    next
      case False
      then show ?thesis
        using assms lc Inr
        by (auto simp: castReply_def Let_def split: if_splits option.splits)
    qed
  qed
qed

lemma stopCheck_Again_values:
  assumes "stopCheck S w i n = (Again m k, w')" and "k \<noteq> Suc n"
  shows "\<exists>a. s_values S = Some a \<and> cells w' a \<noteq> []"
proof (cases "stopCheck S w i n = castReply S w i n")
  case True
  then show ?thesis using castReply_Again_values [of S w i n m k w'] assms by simp
next
  case False
  then show ?thesis
    using assms by (auto simp: stopCheck_def split: option.splits if_splits)
qed

lemma turn_Again_values:
  assumes "turn S w p n = (Again m k, w')" and "k \<noteq> Suc n"
  shows "\<exists>a. s_values S = Some a \<and> cells w' a \<noteq> []"
proof (cases "sendStart S w p n")
  case (Inl e)
  then show ?thesis using assms by (simp add: turn_def)
next
  case (Inr sw)
  obtain s w1 where sw: "sw = (s, w1)" by (cases sw)
  obtain res rest where aw: "awaitMessages (reply_filter S s) (inbox w1) = (res, rest)"
    by (cases "awaitMessages (reply_filter S s) (inbox w1)")
  show ?thesis
  proof (cases res)
    case (Inl err)
    then show ?thesis
      using turn_timeout [of S w p n s w1 err rest] Inr sw aw assms by simp
  next
    case (Inr input)
    then have "afterReply S (util_calls [AddMessage input] (w1\<lparr>inbox := rest\<rparr>)) input n
        = (Again m k, w')"
      using turn_reply \<open>sendStart S w p n = Inr sw\<close> sw aw assms by simp
    then show ?thesis
      using afterReply_Again stopCheck_Again_values assms(2) by blast
  qed
qed

lemma reaches_positive:
  assumes "reaches S c c'" and "0 < snd (snd c)"
  shows "0 < snd (snd c')"
  using assms
proof (induction rule: reaches.induct)
  case (here c)
  then show ?case by simp
next
  case (later w prevMessage retryCount m n w' c)
  then show ?case using turn_Again [of S w prevMessage retryCount m n w'] by auto
qed

lemma shouldSend_entry:
  assumes "S = collect_scope deliver A message commandInput u"
  shows "shouldSend S (collect_entry deliver A message commandInput u) (1 + s_additionalRetry S)
       = Inr True"
  using assms
  by (simp add: shouldSend_def values_length_def collect_entry_def collect_scope_def
      addPrompt_def Let_def)

text \<open>
  C8, as the code has it. A session starts at \<^verbatim>\<open>retryCount\<close> 1 without a seed phrase and
  at 2 with one. The prompt of its first turn is the text of the \<^verbatim>\<open>start\<close> supplier and
  its modifier when there is no seed phrase, and the text of the \<^verbatim>\<open>retry\<close> supplier and
  its modifier when there is one; it is sent if it is truthy. Every turn that follows
  another turn sends the text of the \<^verbatim>\<open>retry\<close> supplier and its modifier, or nothing:
  nothing when that text is not truthy, and nothing at \<^verbatim>\<open>retryCount\<close> 1, which such a turn
  has only in an infinite session, after a value was accepted.
\<close>

theorem prompt_text_by_retry_count:
  assumes "S = collect_scope deliver A message commandInput u"
    and "e = collect_entry deliver A message commandInput u"
  shows "1 + s_additionalRetry S = (if commandInput = [] then 1 else 2)
       \<and> (\<forall>sentStart w1.
            sendStart S e message (1 + s_additionalRetry S) = Inr (sentStart, w1)
            \<longrightarrow> outbox w1
                = (let text = (if commandInput = []
                               then getText S e T_start (start (s_promptOptions S)) 1 message
                                      commandInput
                               else getText S e T_retry (retry (s_promptOptions S)) 2 message
                                      commandInput)
                   in if content_truthy text
                      then outbox e @ [(if util e \<noteq> None then ViaUtil else ViaChannel, text)]
                      else outbox e))
       \<and> (\<forall>w0 prev0 rc0 w prev rc sentStart w1.
            reaches S (e, message, 1 + s_additionalRetry S) (w0, prev0, rc0)
            \<and> turn S w0 prev0 rc0 = (Again prev rc, w)
            \<and> sendStart S w prev rc = Inr (sentStart, w1)
            \<longrightarrow> outbox w1
                = (let text = getText S w T_retry (retry (s_promptOptions S)) rc prev
                                (if rc \<le> 1 + s_additionalRetry S then commandInput
                                 else m_content prev)
                   in if rc \<noteq> 1 \<and> content_truthy text
                      then outbox w @ [(if util w \<noteq> None then ViaUtil else ViaChannel, text)]
                      else outbox w)
              \<and> (rc = 1 \<longrightarrow> s_isInfinite S \<and> values_length S w \<noteq> Inr 0))"
proof (intro conjI allI impI)
  show n: "1 + s_additionalRetry S = (if commandInput = [] then 1 else 2)"
    using assms(1) by (simp add: collect_scope_sel)
  have c: "s_commandInput S = commandInput"
    and ar: "s_additionalRetry S = (if commandInput = [] then 0 else 1)"
    using assms(1) by (simp_all add: collect_scope_sel)
  {
    fix sentStart w1
    assume s: "sendStart S e message (1 + s_additionalRetry S) = Inr (sentStart, w1)"
    have "shouldSend S e (1 + s_additionalRetry S) = Inr True"
      unfolding assms(2) using assms(1) by (rule shouldSend_entry)
    then show "outbox w1
                = (let text = (if commandInput = []
                               then getText S e T_start (start (s_promptOptions S)) 1 message
                                      commandInput
                               else getText S e T_retry (retry (s_promptOptions S)) 2 message
                                      commandInput)
                   in if content_truthy text
                      then outbox e @ [(if util e \<noteq> None then ViaUtil else ViaChannel, text)]
                      else outbox e)"
      using sendStart_outbox [OF s refl refl] c ar
      by (cases "commandInput = []") (simp_all add: Let_def numeral_2_eq_2)
  }
  {
    fix w0 prev0 rc0 w prev rc sentStart w1
    assume h: "reaches S (e, message, 1 + s_additionalRetry S) (w0, prev0, rc0)
            \<and> turn S w0 prev0 rc0 = (Again prev rc, w)
            \<and> sendStart S w prev rc = Inr (sentStart, w1)"
    then have pos: "0 < rc0"
      using reaches_positive [of S "(e, message, 1 + s_additionalRetry S)" "(w0, prev0, rc0)"]
      by simp
    have t: "turn S w0 prev0 rc0 = (Again prev rc, w)" and s: "sendStart S w prev rc = Inr (sentStart, w1)"
      using h by simp_all
    have one: "s_isInfinite S \<and> values_length S w \<noteq> Inr 0" if "rc = 1"
    proof -
      have "rc \<noteq> Suc rc0" using that pos by simp
      then have "\<exists>a. s_values S = Some a \<and> cells w a \<noteq> []"
        using turn_Again_values [OF t] by simp
      moreover have "s_isInfinite S"
        using turn_Again [OF t] \<open>rc \<noteq> Suc rc0\<close> by simp
      ultimately show ?thesis by (auto simp: values_length_def)
    qed
    then show "rc = 1 \<Longrightarrow> s_isInfinite S" and "rc = 1 \<Longrightarrow> values_length S w \<noteq> Inr 0"
      by simp_all
    have sh: "shouldSend S w rc = Inr True \<longleftrightarrow> rc \<noteq> 1"
      using one by (auto simp: shouldSend_def split: sum.splits)
    show "outbox w1
                = (let text = getText S w T_retry (retry (s_promptOptions S)) rc prev
                                (if rc \<le> 1 + s_additionalRetry S then commandInput
                                 else m_content prev)
                   in if rc \<noteq> 1 \<and> content_truthy text
                      then outbox w @ [(if util w \<noteq> None then ViaUtil else ViaChannel, text)]
                      else outbox w)"
      using sendStart_outbox [OF s refl refl] c sh by (simp add: Let_def)
  }
qed


text \<open>
  The theorem above on a session without a seed phrase whose first reply, \<^verbatim>\<open>'abc'\<close>,
  misses: the first turn sends the start text and the second the retry text.
\<close>

theorem prompt_text_by_retry_count_witness:
  "(\<exists>sentStart w1.
      sendStart (collect_scope delivering demo_argument demo_message []
                   (demo_world [user_says 1 ''abc'']))
        (collect_entry delivering demo_argument demo_message []
           (demo_world [user_says 1 ''abc''])) demo_message 1 = Inr (sentStart, w1)
      \<and> outbox w1 = [(ViaChannel, Text ''start?'')])
   \<and> (\<exists>prev w sentStart w1.
        turn (collect_scope delivering demo_argument demo_message []
                (demo_world [user_says 1 ''abc'']))
          (collect_entry delivering demo_argument demo_message []
             (demo_world [user_says 1 ''abc''])) demo_message 1 = (Again prev 2, w)
        \<and> sendStart (collect_scope delivering demo_argument demo_message []
                       (demo_world [user_says 1 ''abc''])) w prev 2 = Inr (sentStart, w1)
        \<and> outbox w1 = [(ViaChannel, Text ''start?''), (ViaChannel, Text ''retry?'')])"
proof -
  let ?u = "demo_world [user_says 1 ''abc'']"
  let ?S = "collect_scope delivering demo_argument demo_message [] ?u"
  let ?e = "collect_entry delivering demo_argument demo_message [] ?u"
  let ?abc = "\<lparr>m_id = 1, m_author = 7, m_channel = 3, m_content = ''abc''\<rparr>"
  let ?w = "\<lparr>inbox = [], outbox = [(ViaChannel, Text ''start?'')], util = None,
             prompts = {(3, 7)}, args = Map.empty, cells = (\<lambda>a. []), next_cell = 0,
             casts = [(Str ''abc'', ?abc, Inr Null)]\<rparr>"
  have n: "1 + s_additionalRetry ?S = 1"
    by (simp add: demo_scope)
  have s1: "sendStart ?S ?e demo_message 1
          = Inr (Some \<lparr>m_id = 1000, m_author = 99, m_channel = 3, m_content = []\<rparr>,
                 ?e\<lparr>outbox := [(ViaChannel, Text ''start?'')]\<rparr>)"
    unfolding demo_scope demo_entry
    by (simp add: sendStart_def shouldSend_def getText_def joined_def send_def util_calls_def
        delivering_def demo_texts addPrompt_def demo_world_def)
  have t1: "turn ?S ?e demo_message 1 = (Again ?abc 2, ?w)"
    unfolding demo_scope demo_entry
    by (simp add: turn_defs demo_argument_def demo_defs cast_defs Let_def)
  have s2: "sendStart ?S ?w ?abc 2
          = Inr (Some \<lparr>m_id = 1001, m_author = 99, m_channel = 3, m_content = []\<rparr>,
                 ?w\<lparr>outbox := [(ViaChannel, Text ''start?''), (ViaChannel, Text ''retry?'')]\<rparr>)"
    unfolding demo_scope
    by (simp add: sendStart_def shouldSend_def getText_def joined_def send_def util_calls_def
        delivering_def demo_texts)
  have g1: "getText ?S ?e T_start (start (s_promptOptions ?S)) 1 demo_message [] = Text ''start?''"
    unfolding demo_scope by (simp add: getText_def joined_def demo_texts)
  have g2: "getText ?S ?w T_retry (retry (s_promptOptions ?S)) 2 ?abc ''abc'' = Text ''retry?''"
    unfolding demo_scope by (simp add: getText_def joined_def demo_texts)
  have u: "util ?e = None" and o: "outbox ?e = []"
    unfolding demo_entry by (simp_all add: addPrompt_def demo_world_def)
  note T = prompt_text_by_retry_count [OF refl refl, of delivering demo_argument demo_message
      "[]" ?u]
  from T s1 have "outbox (?e\<lparr>outbox := [(ViaChannel, Text ''start?'')]\<rparr>)
      = (let text = (if ([]::string) = []
                     then getText ?S ?e T_start (start (s_promptOptions ?S)) 1 demo_message []
                     else getText ?S ?e T_retry (retry (s_promptOptions ?S)) 2 demo_message [])
         in if content_truthy text
            then outbox ?e @ [(if util ?e \<noteq> None then ViaUtil else ViaChannel, text)]
            else outbox ?e)"
    unfolding n by blast
  then have first: "outbox (?e\<lparr>outbox := [(ViaChannel, Text ''start?'')]\<rparr>)
             = [(ViaChannel, Text ''start?'')]"
    by simp
  have r: "reaches ?S (?e, demo_message, 1 + s_additionalRetry ?S) (?e, demo_message, 1)"
    unfolding n by (rule reaches.here)
  have "reaches ?S (?e, demo_message, 1 + s_additionalRetry ?S) (?e, demo_message, 1)
        \<and> turn ?S ?e demo_message 1 = (Again ?abc 2, ?w)
        \<and> sendStart ?S ?w ?abc 2
          = Inr (Some \<lparr>m_id = 1001, m_author = 99, m_channel = 3, m_content = []\<rparr>,
                 ?w\<lparr>outbox := [(ViaChannel, Text ''start?''), (ViaChannel, Text ''retry?'')]\<rparr>)"
    using r t1 s2 by blast
  with T have later: "outbox (?w\<lparr>outbox := [(ViaChannel, Text ''start?''),
                                          (ViaChannel, Text ''retry?'')]\<rparr>)
      = (let text = getText ?S ?w T_retry (retry (s_promptOptions ?S)) 2 ?abc
                      (if 2 \<le> 1 + s_additionalRetry ?S then [] else m_content ?abc)
         in if (2::nat) \<noteq> 1 \<and> content_truthy text
            then outbox ?w @ [(if util ?w \<noteq> None then ViaUtil else ViaChannel, text)]
            else outbox ?w)"
    by blast
  then have second: "outbox (?w\<lparr>outbox := [(ViaChannel, Text ''start?''),
                                          (ViaChannel, Text ''retry?'')]\<rparr>)
      = [(ViaChannel, Text ''start?''), (ViaChannel, Text ''retry?'')]"
    by simp
  show ?thesis
    using s1 first t1 s2 second by blast
qed

text \<open>
  C8 as stated fails for a session seeded with the phrase \<^verbatim>\<open>'x'\<close>: its first prompt is
  the retry text, although a start text is configured.
\<close>

theorem seeded_session_starts_with_retry_text:
  "start (mergedOptions demo_argument) = Some (Literal (Text ''start?''))
   \<and> outbox (snd (collect delivering demo_argument demo_message ''x'' (demo_world [])))
       = [(ViaChannel, Text ''retry?''), (ViaChannel, Text ''timed out'')]"
proof -
  let ?S = "collect_scope delivering demo_argument demo_message ''x'' (demo_world [])"
  let ?e = "collect_entry delivering demo_argument demo_message ''x'' (demo_world [])"
  have t: "turn ?S ?e demo_message 2
      = (Done (Inr (Flag Cancel)),
         (addPrompt 3 7 (demo_world []))
           \<lparr>outbox := [(ViaChannel, Text ''retry?''), (ViaChannel, Text ''timed out'')]\<rparr>)"
    by (simp add: demo_seeded_scope demo_seeded_entry turn_defs demo_texts delivering_def
        addPrompt_def demo_world_def)
  have n: "1 + s_additionalRetry ?S = 2"
    by (simp add: demo_seeded_scope)
  have p: "promptOne ?S ?e demo_message (1 + s_additionalRetry ?S)
      = (Inr (Flag Cancel),
         (addPrompt 3 7 (demo_world []))
           \<lparr>outbox := [(ViaChannel, Text ''retry?''), (ViaChannel, Text ''timed out'')]\<rparr>)"
    unfolding n by (rule promptOne_Done [OF t])
  show ?thesis
    unfolding collect_fields(4) p by (simp add: demo_merged demo_texts)
qed

subsection \<open>The end of an infinite prompt\<close>

lemma view_eq: "args w' = args w \<Longrightarrow> cells w' = cells w \<Longrightarrow> view w' = view w"
  by (simp add: view_def)

lemma reaches_invariant:
  assumes "reaches S c c'" and "P c"
    and "\<And>w p n m k w'. P (w, p, n) \<Longrightarrow> turn S w p n = (Again m k, w') \<Longrightarrow> P (w', m, k)"
  shows "P c'"
  using assms by (induction rule: reaches.induct) auto

lemma castReply_accept:
  assumes "arg_cast (s_this S) (Str (m_content i)) i (view w) = Inr v" and "\<not> is_void v"
    and "s_isInfinite S" and "s_values S = Some a" and "limit (s_promptOptions S) = Some l"
  shows "castReply S w i n
       = (if enat (Suc (length (cells w a))) < l then Again (s_message S) 1
          else Done (Inr (Value (Ref a))),
          w\<lparr>casts := casts w @ [(Str (m_content i), i, Inr v)],
            cells := (cells w)(a := cells w a @ [v])\<rparr>)"
  using assms by (simp add: castReply_def logged_cast_def Let_def)

lemma turn_Again_below_limit:
  assumes "turn S w p n = (Again m k, w')"
    and "s_isInfinite S" and "s_values S = Some a" and "limit (s_promptOptions S) = Some l"
    and "enat (length (cells w a)) < l"
  shows "enat (length (cells w' a)) < l"
proof -
  obtain s w1 where s: "sendStart S w p n = Inr (s, w1)"
    using assms(1) by (cases "sendStart S w p n") (auto simp: turn_def)
  obtain res rest where aw: "awaitMessages (reply_filter S s) (inbox w1) = (res, rest)"
    by (cases "awaitMessages (reply_filter S s) (inbox w1)")
  obtain i where i: "res = Inr i"
    using turn_timeout [of S w p n s w1 _ rest] s aw assms(1) by (cases res) auto
  let ?w2 = "util_calls [AddMessage i] (w1\<lparr>inbox := rest\<rparr>)"
  have c2: "cells ?w2 = cells w"
    using sendStart_frame [OF s] by (simp add: util_calls_def)
  have "afterReply S ?w2 i n = (Again m k, w')"
    using turn_reply [OF s] aw i assms(1) by simp
  then have st: "stopCheck S ?w2 i n = (Again m k, w')"
    by (rule afterReply_Again)
  show ?thesis
  proof (cases "stopCheck S ?w2 i n = castReply S ?w2 i n")
    case False
    then have "w' = ?w2"
      using st by (auto simp: stopCheck_def split: option.splits if_splits)
    then show ?thesis using c2 assms(5) by simp
  next
    case True
    then have cr: "castReply S ?w2 i n = (Again m k, w')" using st by simp
    show ?thesis
    proof (cases "arg_cast (s_this S) (Str (m_content i)) i (view ?w2)")
      case (Inl e)
      then show ?thesis using cr by (simp add: castReply_def logged_cast_def Let_def)
    next
      case (Inr v)
      show ?thesis
      proof (cases "is_void v")
        case True
        then have "cells w' = cells ?w2"
          using cr Inr
          by (auto simp: castReply_def logged_cast_def Let_def split: if_splits prod.splits)
        then show ?thesis using c2 assms(5) by simp
      next
        case False
        from castReply_accept [OF Inr False assms(2,3,4)] cr
        show ?thesis by (auto split: if_splits)
      qed
    qed
  qed
qed

lemma demo_list_merged:
  "mergedOptions demo_list_argument = demo_options\<lparr>infinite_p := Some True, limit := Some 3\<rparr>"
  by (simp add: mergedOptions_def demo_list_argument_def new_Argument_def a_handler_def
      demo_command_def demo_handler_def assign_def override_def no_options_def
      demo_options_def)

lemma demo_list_turn2:
  "turn (collect_scope delivering demo_list_argument demo_message [] (demo_world es0))
     \<lparr>inbox = user_says 2 ''2'' # es, outbox = [(ViaChannel, Text ''start?'')], util = None,
      prompts = {(3, 7)}, args = [''n'' \<mapsto> Ref 0], cells = (\<lambda>a. [])(0 := [Num 1]),
      next_cell = 1,
      casts = [(Str ''1'', \<lparr>m_id = 1, m_author = 7, m_channel = 3, m_content = ''1''\<rparr>,
                 Inr (Num 1))]\<rparr>
     demo_message 1
   = (Again demo_message 1,
      \<lparr>inbox = es, outbox = [(ViaChannel, Text ''start?'')], util = None, prompts = {(3, 7)},
       args = [''n'' \<mapsto> Ref 0], cells = (\<lambda>a. [])(0 := [Num 1, Num 2]), next_cell = 1,
       casts = [(Str ''1'', \<lparr>m_id = 1, m_author = 7, m_channel = 3, m_content = ''1''\<rparr>,
                 Inr (Num 1)),
                (Str ''2'', \<lparr>m_id = 2, m_author = 7, m_channel = 3, m_content = ''2''\<rparr>,
                 Inr (Num 2))]\<rparr>)"
  unfolding demo_list_scope
  by (simp add: turn_defs demo_list_argument_def demo_defs cast_defs Let_def numeral_eq_enat)

text \<open>
  C3. Let \<^verbatim>\<open>collect\<close> run in infinite mode, with stop word \<open>sw\<close>, cancel word \<open>cw\<close> and limit
  \<open>l\<close>, and let \<open>a\<close> be the address of its \<^verbatim>\<open>values\<close> array. Take any turn \<open>(w, prev, rc)\<close> of
  the session whose reply \<open>input\<close> gets past the breakout and cancel checks. Then:
  \<^item> the stop word with values accumulated ends the session: \<^verbatim>\<open>collect\<close> returns the array,
    holding what it held before the reply (the stop-word turn adds no entry);
  \<^item> the stop word with no value accumulated ends nothing: the session goes on with the
    turn \<open>(w2, input, rc + 1)\<close>, a re-prompt;
  \<^item> a reply that is cast to a non-void value \<open>v\<close> is appended; below the limit the session
    goes on with \<^verbatim>\<open>promptOne(message, 1)\<close>, otherwise \<^verbatim>\<open>collect\<close> returns the array, \<open>v\<close> last;
  \<^item> with a limit of at least 1 every turn starts below the limit, so the list returned at
    the limit has exactly \<open>l\<close> elements;
  \<^item> and only so: if \<^verbatim>\<open>collect\<close> returns a value at all, it is this array, and some turn
    of the session received either the stop word with values accumulated or a reply that
    was accepted and reached the limit.
\<close>

theorem infinite_prompt_ends:
  assumes "S = collect_scope deliver A message commandInput u"
    and "e = collect_entry deliver A message commandInput u"
    and "infinite_p (mergedOptions A) = Some True"
    and "a_match A = SEPARATE \<longrightarrow> commandInput = []"
    and "h_commandUtil (a_handler A) \<longrightarrow> util u \<noteq> None"
    and "stopWord (mergedOptions A) = Some sw"
    and "cancelWord (mergedOptions A) = Some cw"
    and "limit (mergedOptions A) = Some l"
    and "a = next_cell u"
    and "reaches S (e, message, 1 + s_additionalRetry S) (w, prev, rc)"
    and "sendStart S w prev rc = Inr (sentStart, w1)"
    and "awaitMessages (reply_filter S sentStart) (inbox w1) = (Inr input, rest)"
    and "\<not> (breakout (mergedOptions A) = Some True \<and> h_parseCommand (a_handler A) input)"
    and "toLowerCase (m_content input) \<noteq> toLowerCase cw"
    and "w2 = util_calls [AddMessage input] (w1\<lparr>inbox := rest\<rparr>)"
  shows "(toLowerCase (m_content input) = toLowerCase sw \<and> cells w a \<noteq> []
          \<longrightarrow> fst (collect deliver A message commandInput u) = Inr (Value (Ref a))
              \<and> cells (snd (collect deliver A message commandInput u)) a = cells w a)
       \<and> (toLowerCase (m_content input) = toLowerCase sw \<and> cells w a = []
          \<longrightarrow> reaches S (e, message, 1 + s_additionalRetry S) (w2, input, rc + 1))
       \<and> (\<forall>v. toLowerCase (m_content input) \<noteq> toLowerCase sw
              \<and> arg_cast A (Str (m_content input)) input (view w) = Inr v \<and> \<not> is_void v
              \<and> enat (Suc (length (cells w a))) < l
          \<longrightarrow> (\<exists>w'. reaches S (e, message, 1 + s_additionalRetry S) (w', message, 1)
                    \<and> cells w' a = cells w a @ [v]))
       \<and> (\<forall>v. toLowerCase (m_content input) \<noteq> toLowerCase sw
              \<and> arg_cast A (Str (m_content input)) input (view w) = Inr v \<and> \<not> is_void v
              \<and> \<not> enat (Suc (length (cells w a))) < l
          \<longrightarrow> fst (collect deliver A message commandInput u) = Inr (Value (Ref a))
              \<and> cells (snd (collect deliver A message commandInput u)) a = cells w a @ [v])
       \<and> (enat 1 \<le> l \<longrightarrow> enat (length (cells w a)) < l)
       \<and> (\<forall>x. fst (collect deliver A message commandInput u) = Inr (Value x)
          \<longrightarrow> x = Ref a
              \<and> (\<exists>w' p' n' s' w1' i' rest'.
                    reaches S (e, message, 1 + s_additionalRetry S) (w', p', n')
                  \<and> sendStart S w' p' n' = Inr (s', w1')
                  \<and> awaitMessages (reply_filter S s') (inbox w1') = (Inr i', rest')
                  \<and> ((toLowerCase (m_content i') = toLowerCase sw \<and> cells w' a \<noteq> [])
                     \<or> (toLowerCase (m_content i') \<noteq> toLowerCase sw
                        \<and> (\<exists>v. arg_cast A (Str (m_content i')) i' (view w') = Inr v
                              \<and> \<not> is_void v \<and> \<not> enat (Suc (length (cells w' a))) < l)))))"
proof -
  let ?n0 = "1 + s_additionalRetry S"
  let ?c = "collect deliver A message commandInput u"
  have inf: "s_isInfinite S" and val: "s_values S = Some a"
    using collect_scope_infinite [OF assms(3,4)] assms(1,9) by simp_all
  have sel: "s_this S = A" "s_message S = message" "s_promptOptions S = mergedOptions A"
    using assms(1) by (simp_all add: collect_scope_sel)
  have po: "stopWord (s_promptOptions S) = Some sw" "cancelWord (s_promptOptions S) = Some cw"
    "limit (s_promptOptions S) = Some l"
    using sel assms(6,7,8) by simp_all
  have fr: "args w1 = args w" "cells w1 = cells w"
    using sendStart_frame [OF assms(11)] by (simp_all add: frame_def)
  have c2: "cells w2 = cells w" and v2: "view w2 = view w"
    using fr assms(15) by (simp_all add: util_calls_def view_def)
  have t: "turn S w prev rc = stopCheck S w2 input rc"
    using turn_reply [OF assms(11,12)] assms(13,14,15) sel po
    by (simp add: afterReply_def cancelCheck_def)
  have p: "promptOne S e message ?n0 = (r, w')" if "stopCheck S w2 input rc = (Done r, w')"
    for r w'
    using session_result [OF assms(10)] t that by simp
  have go: "reaches S (e, message, ?n0) (w', m, k)"
    if "stopCheck S w2 input rc = (Again m k, w')" for m k w'
    using reaches_step [OF assms(10)] t that by simp
  have fin: "fst ?c = Inr x \<and> cells (snd ?c) = cells w'"
    if "stopCheck S w2 input rc = (Done (Inr x), w')" for x w'
    using collect_fst [OF assms(5), of deliver message commandInput]
      collect_fields(1) [of deliver A message commandInput u] p [OF that] assms(1,2)
    by simp
  have c1: "toLowerCase (m_content input) = toLowerCase sw \<and> cells w a \<noteq> []
          \<longrightarrow> fst ?c = Inr (Value (Ref a)) \<and> cells (snd ?c) a = cells w a"
  proof
    assume h: "toLowerCase (m_content input) = toLowerCase sw \<and> cells w a \<noteq> []"
    then have "stopCheck S w2 input rc = (Done (Inr (Value (Ref a))), w2)"
      using inf val po c2 by (simp add: stopCheck_def)
    from fin [OF this] show "fst ?c = Inr (Value (Ref a)) \<and> cells (snd ?c) a = cells w a"
      using c2 by simp
  qed
  have c2': "toLowerCase (m_content input) = toLowerCase sw \<and> cells w a = []
          \<longrightarrow> reaches S (e, message, ?n0) (w2, input, rc + 1)"
  proof
    assume h: "toLowerCase (m_content input) = toLowerCase sw \<and> cells w a = []"
    then have "stopCheck S w2 input rc = (Again input (rc + 1), w2)"
      using inf val po c2 by (simp add: stopCheck_def)
    then show "reaches S (e, message, ?n0) (w2, input, rc + 1)" by (rule go)
  qed
  have acc: "stopCheck S w2 input rc
       = (if enat (Suc (length (cells w a))) < l then Again message 1
          else Done (Inr (Value (Ref a))),
          w2\<lparr>casts := casts w2 @ [(Str (m_content input), input, Inr v)],
             cells := (cells w2)(a := cells w a @ [v])\<rparr>)"
    if "toLowerCase (m_content input) \<noteq> toLowerCase sw"
      and "arg_cast A (Str (m_content input)) input (view w) = Inr v" and "\<not> is_void v" for v
  proof -
    have "arg_cast (s_this S) (Str (m_content input)) input (view w2) = Inr v"
      using that(2) sel v2 by simp
    from castReply_accept [OF this that(3) inf val po(3), of rc]
    show ?thesis using that(1) inf po sel c2 by (simp add: stopCheck_def)
  qed
  have c3: "\<forall>v. toLowerCase (m_content input) \<noteq> toLowerCase sw
              \<and> arg_cast A (Str (m_content input)) input (view w) = Inr v \<and> \<not> is_void v
              \<and> enat (Suc (length (cells w a))) < l
          \<longrightarrow> (\<exists>w'. reaches S (e, message, ?n0) (w', message, 1)
                    \<and> cells w' a = cells w a @ [v])"
  proof (intro allI impI)
    fix v
    assume h: "toLowerCase (m_content input) \<noteq> toLowerCase sw
              \<and> arg_cast A (Str (m_content input)) input (view w) = Inr v \<and> \<not> is_void v
              \<and> enat (Suc (length (cells w a))) < l"
    let ?w' = "w2\<lparr>casts := casts w2 @ [(Str (m_content input), input, Inr v)],
             cells := (cells w2)(a := cells w a @ [v])\<rparr>"
    have "stopCheck S w2 input rc = (Again message 1, ?w')"
      using acc [of v] h by simp
    then have "reaches S (e, message, ?n0) (?w', message, 1)" by (rule go)
    moreover have "cells ?w' a = cells w a @ [v]" by simp
    ultimately show "\<exists>w'. reaches S (e, message, ?n0) (w', message, 1)
                    \<and> cells w' a = cells w a @ [v]"
      by blast
  qed
  have c4: "\<forall>v. toLowerCase (m_content input) \<noteq> toLowerCase sw
              \<and> arg_cast A (Str (m_content input)) input (view w) = Inr v \<and> \<not> is_void v
              \<and> \<not> enat (Suc (length (cells w a))) < l
          \<longrightarrow> fst ?c = Inr (Value (Ref a)) \<and> cells (snd ?c) a = cells w a @ [v]"
  proof (intro allI impI)
    fix v
    assume h: "toLowerCase (m_content input) \<noteq> toLowerCase sw
              \<and> arg_cast A (Str (m_content input)) input (view w) = Inr v \<and> \<not> is_void v
              \<and> \<not> enat (Suc (length (cells w a))) < l"
    let ?w' = "w2\<lparr>casts := casts w2 @ [(Str (m_content input), input, Inr v)],
             cells := (cells w2)(a := cells w a @ [v])\<rparr>"
    have "stopCheck S w2 input rc = (Done (Inr (Value (Ref a))), ?w')"
      using acc [of v] h by simp
    from fin [OF this] show "fst ?c = Inr (Value (Ref a)) \<and> cells (snd ?c) a = cells w a @ [v]"
      by simp
  qed
  have e0: "cells e a = []"
    using inf val assms(1,2) by (simp add: collect_entry_def Let_def addPrompt_def)
  have c5: "enat 1 \<le> l \<longrightarrow> enat (length (cells w a)) < l"
  proof
    assume l1: "enat 1 \<le> l"
    have "(\<lambda>c. enat (length (cells (fst c) a)) < l) (w, prev, rc)"
    proof (rule reaches_invariant [OF assms(10)])
      show "enat (length (cells (fst (e, message, ?n0)) a)) < l"
        using e0 l1 by (cases l) (auto simp: zero_enat_def one_enat_def)
    next
      fix w p n m k w'
      assume "enat (length (cells (fst (w, p, n)) a)) < l" "turn S w p n = (Again m k, w')"
      then show "enat (length (cells (fst (w', m, k)) a)) < l"
        using turn_Again_below_limit [OF _ inf val po(3)] by simp
    qed
    then show "enat (length (cells w a)) < l" by simp
  qed
  have c6: "\<forall>x. fst ?c = Inr (Value x)
          \<longrightarrow> x = Ref a
              \<and> (\<exists>w' p' n' s' w1' i' rest'.
                    reaches S (e, message, ?n0) (w', p', n')
                  \<and> sendStart S w' p' n' = Inr (s', w1')
                  \<and> awaitMessages (reply_filter S s') (inbox w1') = (Inr i', rest')
                  \<and> ((toLowerCase (m_content i') = toLowerCase sw \<and> cells w' a \<noteq> [])
                     \<or> (toLowerCase (m_content i') \<noteq> toLowerCase sw
                        \<and> (\<exists>v. arg_cast A (Str (m_content i')) i' (view w') = Inr v
                              \<and> \<not> is_void v \<and> \<not> enat (Suc (length (cells w' a))) < l))))"
  proof (intro allI impI)
    fix x
    assume "fst ?c = Inr (Value x)"
    from collect_fst_Inr [OF this]
    have px: "fst (promptOne S e message ?n0) = Inr (Value x)"
      using assms(1,2) by simp
    obtain w' p' n' where r': "reaches S (e, message, ?n0) (w', p', n')"
      and t': "turn S w' p' n' = (Done (Inr (Value x)), snd (promptOne S e message ?n0))"
      using promptOne_last_turn [of S e message ?n0] px by auto
    from turn_Value [OF t'] obtain s' w1' i' rest' where
      s': "sendStart S w' p' n' = Inr (s', w1')"
      and a': "awaitMessages (reply_filter S s') (inbox w1') = (Inr i', rest')"
      and st': "stopCheck S (util_calls [AddMessage i'] (w1'\<lparr>inbox := rest'\<rparr>)) i' n'
             = (Done (Inr (Value x)), snd (promptOne S e message ?n0))"
      by blast
    let ?w2' = "util_calls [AddMessage i'] (w1'\<lparr>inbox := rest'\<rparr>)"
    have fr': "args w1' = args w'" "cells w1' = cells w'"
      using sendStart_frame [OF s'] by (simp_all add: frame_def)
    have k2: "cells ?w2' = cells w'" "view ?w2' = view w'"
      using fr' by (simp_all add: util_calls_def view_def)
    have xa: "x = Ref a" using stopCheck_Value_ref [OF st' inf val] .
    have "(toLowerCase (m_content i') = toLowerCase sw \<and> cells w' a \<noteq> [])
        \<or> (toLowerCase (m_content i') \<noteq> toLowerCase sw
           \<and> (\<exists>v. arg_cast A (Str (m_content i')) i' (view w') = Inr v
                 \<and> \<not> is_void v \<and> \<not> enat (Suc (length (cells w' a))) < l))"
      using stopCheck_Value [OF st' inf val po(1)]
    proof
      assume "toLowerCase (m_content i') = toLowerCase sw \<and> cells ?w2' a \<noteq> [] \<and> x = Ref a
              \<and> snd (promptOne S e message ?n0) = ?w2'"
      then show ?thesis using k2 by simp
    next
      assume h: "toLowerCase (m_content i') \<noteq> toLowerCase sw
           \<and> castReply S ?w2' i' n' = (Done (Inr (Value x)), snd (promptOne S e message ?n0))"
      then have "\<exists>v. arg_cast (s_this S) (Str (m_content i')) i' (view ?w2') = Inr v
          \<and> \<not> is_void v
          \<and> (\<exists>b. s_values S = Some b \<and> x = Ref b
                 \<and> \<not> (case limit (s_promptOptions S) of
                         Some l \<Rightarrow> enat (Suc (length (cells ?w2' b))) < l | None \<Rightarrow> False))"
        using castReply_Value [of S ?w2' i' n' x] inf by auto
      then show ?thesis using h k2 sel val po(3) by auto
    qed
    then show "x = Ref a
              \<and> (\<exists>w' p' n' s' w1' i' rest'.
                    reaches S (e, message, ?n0) (w', p', n')
                  \<and> sendStart S w' p' n' = Inr (s', w1')
                  \<and> awaitMessages (reply_filter S s') (inbox w1') = (Inr i', rest')
                  \<and> ((toLowerCase (m_content i') = toLowerCase sw \<and> cells w' a \<noteq> [])
                     \<or> (toLowerCase (m_content i') \<noteq> toLowerCase sw
                        \<and> (\<exists>v. arg_cast A (Str (m_content i')) i' (view w') = Inr v
                              \<and> \<not> is_void v \<and> \<not> enat (Suc (length (cells w' a))) < l))))"
      using xa r' s' a' by blast
  qed
  show ?thesis
    using c1 c2' c3 c4 c5 c6 by (intro conjI)
qed

text \<open>
  The theorem above for the replies \<^verbatim>\<open>'1'\<close>, \<^verbatim>\<open>'2'\<close>, \<^verbatim>\<open>'stop'\<close> to a prompt with limit 3: the
  third turn receives the stop word, and \<^verbatim>\<open>collect\<close> returns \<^verbatim>\<open>[1, 2]\<close>.
\<close>

theorem infinite_prompt_ends_witness:
  "fst (collect delivering demo_list_argument demo_message []
          (demo_world [user_says 1 ''1'', user_says 2 ''2'', user_says 3 ''stop'']))
     = Inr (Value (Ref 0))
   \<and> cells (snd (collect delivering demo_list_argument demo_message []
                   (demo_world [user_says 1 ''1'', user_says 2 ''2'', user_says 3 ''stop''])))
        0 = [Num 1, Num 2]"
proof -
  let ?u = "demo_world [user_says 1 ''1'', user_says 2 ''2'', user_says 3 ''stop'']"
  let ?S = "collect_scope delivering demo_list_argument demo_message [] ?u"
  let ?e = "collect_entry delivering demo_list_argument demo_message [] ?u"
  let ?w = "\<lparr>inbox = [user_says 3 ''stop''], outbox = [(ViaChannel, Text ''start?'')],
       util = None, prompts = {(3, 7)},
       args = [''n'' \<mapsto> Ref 0], cells = (\<lambda>a. [])(0 := [Num 1, Num 2]), next_cell = 1,
       casts = [(Str ''1'', \<lparr>m_id = 1, m_author = 7, m_channel = 3, m_content = ''1''\<rparr>,
                 Inr (Num 1)),
                (Str ''2'', \<lparr>m_id = 2, m_author = 7, m_channel = 3, m_content = ''2''\<rparr>,
                 Inr (Num 2))]\<rparr>"
  let ?input = "\<lparr>m_id = 3, m_author = 7, m_channel = 3, m_content = ''stop''\<rparr>"
  have i: "infinite_p (mergedOptions demo_list_argument) = Some True"
    and sw: "stopWord (mergedOptions demo_list_argument) = Some ''stop''"
    and cw: "cancelWord (mergedOptions demo_list_argument) = Some ''cancel''"
    and l: "limit (mergedOptions demo_list_argument) = Some 3"
    by (simp_all add: demo_list_merged demo_options_def no_options_def)
  have m: "a_match demo_list_argument = SEPARATE \<longrightarrow> ([]::string) = []"
    by simp
  have wf: "h_commandUtil (a_handler demo_list_argument) \<longrightarrow> util ?u \<noteq> None"
    by (simp add: demo_list_argument_def new_Argument_def a_handler_def demo_command_def
        demo_handler_def)
  have a: "(0::nat) = next_cell ?u"
    by (simp add: demo_world_def)
  have n: "1 + s_additionalRetry ?S = 1"
    by (simp add: demo_list_scope)
  have r: "reaches ?S (?e, demo_message, 1 + s_additionalRetry ?S) (?w, demo_message, 1)"
    unfolding n demo_list_entry
    by (rule reaches.later [OF demo_list_turn1], rule reaches.later [OF demo_list_turn2],
        rule reaches.here)
  have s: "sendStart ?S ?w demo_message 1 = Inr (None, ?w)"
    unfolding demo_list_scope
    by (simp add: sendStart_def shouldSend_def values_length_def)
  have aw: "awaitMessages (reply_filter ?S None) (inbox ?w) = (Inr ?input, [])"
    unfolding demo_list_scope
    by (simp add: reply_filter_def user_says_def demo_message_def)
  have nb: "\<not> (breakout (mergedOptions demo_list_argument) = Some True
              \<and> h_parseCommand (a_handler demo_list_argument) ?input)"
    by (simp add: demo_list_argument_def new_Argument_def a_handler_def demo_command_def
        demo_handler_def)
  have nc: "toLowerCase (m_content ?input) \<noteq> toLowerCase ''cancel''"
    by (simp add: toLowerCase_def lower_char_def)
  have st: "toLowerCase (m_content ?input) = toLowerCase ''stop'' \<and> cells ?w 0 \<noteq> []"
    by simp
  have c: "cells ?w 0 = [Num 1, Num 2]"
    by simp
  have "toLowerCase (m_content ?input) = toLowerCase ''stop'' \<and> cells ?w 0 \<noteq> []
      \<longrightarrow> fst (collect delivering demo_list_argument demo_message [] ?u) = Inr (Value (Ref 0))
         \<and> cells (snd (collect delivering demo_list_argument demo_message [] ?u)) 0
             = cells ?w 0"
    by (rule conjunct1 [OF infinite_prompt_ends
          [OF refl refl i m wf sw cw l a r s aw nb nc refl]])
  from mp [OF this st] show ?thesis
    by (simp only: c)
qed

subsection \<open>Exhausting the retries\<close>

lemma getText_view:
  assumes "view w' = view w"
  shows "getText S w' t p n m ph = getText S w t p n m ph"
  unfolding getText_def assms by (rule refl)

lemma sendStart_delivered:
  assumes "\<not> s_isInfinite S"
    and "\<forall>k rt c. \<exists>sent. s_deliver S k rt c = Inr sent \<and> m_id sent \<noteq> i"
  shows "\<exists>s w1. sendStart S w prev n = Inr (s, w1)
           \<and> (\<forall>sent. s = Some sent \<longrightarrow> m_id sent \<noteq> i)"
proof -
  define tx where "tx = getText S w (if n = 1 then T_start else T_retry)
      (if n = 1 then start (s_promptOptions S) else retry (s_promptOptions S)) n prev
      (if n \<le> 1 + s_additionalRetry S then s_commandInput S else m_content prev)"
  have sh: "shouldSend S w n = Inr True"
    using assms(1) by (simp add: shouldSend_def)
  show ?thesis
  proof (cases "content_truthy tx")
    case False
    then have "sendStart S w prev n = Inr (None, w)"
      using sh by (simp add: sendStart_def Let_def tx_def)
    then show ?thesis by simp
  next
    case True
    obtain sent where sent: "s_deliver S (length (outbox w))
        (if util w \<noteq> None then ViaUtil else ViaChannel) tx = Inr sent" "m_id sent \<noteq> i"
      using assms(2) by blast
    then have "\<exists>w1. sendStart S w prev n = Inr (Some sent, w1)"
      using sh True by (simp add: sendStart_def Let_def tx_def send_def)
    then show ?thesis using sent(2) by auto
  qed
qed

lemma sendAndCancel_delivered:
  assumes "\<forall>k rt c. \<exists>sent. s_deliver S k rt c = Inr sent \<and> m_id sent \<noteq> i"
  shows "\<exists>w'. sendAndCancel S w text = (Inr (Flag Cancel), w')
           \<and> casts w' = casts w \<and> inbox w' = inbox w \<and> args w' = args w \<and> cells w' = cells w
           \<and> (content_truthy text \<longrightarrow> outbox w' = outbox w @ [(ViaChannel, text)])"
proof (cases "content_truthy text")
  case False
  then show ?thesis by (simp add: sendAndCancel_def)
next
  case True
  obtain sent where "s_deliver S (length (outbox w)) ViaChannel text = Inr sent"
    using assms by blast
  then show ?thesis
    using True by (simp add: sendAndCancel_def send_def util_calls_def)
qed

lemma turn_miss:
  assumes "\<not> s_isInfinite S"
    and "retries (s_promptOptions S) = Some r"
    and "cancelWord (s_promptOptions S) = Some cw"
    and "\<forall>k rt c. \<exists>sent. s_deliver S k rt c = Inr sent \<and> m_id sent \<noteq> m_id m"
    and "inbox w = Incoming m # es"
    and "m_author m = m_author (s_message S)"
    and "\<not> (breakout (s_promptOptions S) = Some True \<and> h_parseCommand (a_handler (s_this S)) m)"
    and "toLowerCase (m_content m) \<noteq> toLowerCase cw"
    and "arg_cast (s_this S) (Str (m_content m)) m (view w) = Inr Null"
  shows "\<exists>w'. turn S w prev n
              = (if n \<le> r then Again m (Suc n) else Done (Inr (Flag Cancel)), w')
          \<and> casts w' = casts w @ [(Str (m_content m), m, Inr Null)]
          \<and> inbox w' = es \<and> args w' = args w \<and> cells w' = cells w
          \<and> (\<not> n \<le> r
               \<and> content_truthy (getText S w T_ended (ended (s_promptOptions S)) n m (m_content m))
             \<longrightarrow> last (outbox w')
                 = (ViaChannel, getText S w T_ended (ended (s_promptOptions S)) n m (m_content m)))"
proof -
  obtain s w1 where s: "sendStart S w prev n = Inr (s, w1)"
    and sid: "\<forall>sent. s = Some sent \<longrightarrow> m_id sent \<noteq> m_id m"
    using sendStart_delivered [OF assms(1,4)] by blast
  have f1: "inbox w1 = inbox w" "casts w1 = casts w" "cells w1 = cells w" "args w1 = args w"
    using sendStart_frame [OF s] by (simp_all add: frame_def)
  have aw: "awaitMessages (reply_filter S s) (inbox w1) = (Inr m, es)"
    using f1 assms(5,6) sid by (cases s) (simp_all add: reply_filter_def)
  define w2 where "w2 = util_calls [AddMessage m] (w1\<lparr>inbox := es\<rparr>)"
  have f2: "inbox w2 = es" "casts w2 = casts w" "cells w2 = cells w" "args w2 = args w"
    using f1 by (simp_all add: w2_def util_calls_def)
  have v2: "view w2 = view w" using f2 by (simp add: view_def)
  define w3 where "w3 = w2\<lparr>casts := casts w2 @ [(Str (m_content m), m, Inr Null)]\<rparr>"
  have f3: "inbox w3 = es" "casts w3 = casts w @ [(Str (m_content m), m, Inr Null)]"
    "cells w3 = cells w" "args w3 = args w"
    using f2 by (simp_all add: w3_def)
  have v3: "view w3 = view w" using f3 by (simp add: view_def)
  have lc: "logged_cast (s_this S) (m_content m) m w2 = (Inr Null, w3)"
    using assms(9) v2 by (simp add: logged_cast_def Let_def w3_def)
  have t: "turn S w prev n = castReply S w2 m n"
    using turn_reply [OF s aw] assms(1,3,7,8)
    by (simp add: afterReply_def cancelCheck_def stopCheck_def w2_def)
  show ?thesis
  proof (cases "n \<le> r")
    case True
    then have "castReply S w2 m n = (Again m (Suc n), w3)"
      using lc assms(2) by (simp add: castReply_def is_void_def)
    then show ?thesis using t True f3 by simp
  next
    case False
    let ?E = "getText S w T_ended (ended (s_promptOptions S)) n m (m_content m)"
    have E: "getText S w3 T_ended (ended (s_promptOptions S)) n m (m_content m) = ?E"
      using v3 by (rule getText_view)
    obtain w4 where c: "sendAndCancel S w3 ?E = (Inr (Flag Cancel), w4)"
      and f4: "casts w4 = casts w3" "inbox w4 = inbox w3" "args w4 = args w3"
        "cells w4 = cells w3"
        "content_truthy ?E \<longrightarrow> outbox w4 = outbox w3 @ [(ViaChannel, ?E)]"
      using sendAndCancel_delivered [OF assms(4), of w3 ?E] by blast
    have "castReply S w2 m n = (Done (Inr (Flag Cancel)), w4)"
      using lc assms(2) False c E by (simp add: castReply_def is_void_def)
    then show ?thesis using t False f3 f4 by simp
  qed
qed


lemma miss_run:
  assumes "\<not> s_isInfinite S"
    and "retries (s_promptOptions S) = Some r"
    and "cancelWord (s_promptOptions S) = Some cw"
  shows "(\<forall>k rt c. \<exists>sent. s_deliver S k rt c = Inr sent \<and> m_id sent \<notin> m_id ` set ms)
     \<Longrightarrow> inbox w = map Incoming ms @ rest
     \<Longrightarrow> length ms = Suc (Suc r - n)
     \<Longrightarrow> (\<forall>m\<in>set ms. m_author m = m_author (s_message S)
            \<and> \<not> (breakout (s_promptOptions S) = Some True
                   \<and> h_parseCommand (a_handler (s_this S)) m)
            \<and> toLowerCase (m_content m) \<noteq> toLowerCase cw
            \<and> arg_cast (s_this S) (Str (m_content m)) m (view w) = Inr Null)
     \<Longrightarrow> \<exists>w'. promptOne S w prev n = (Inr (Flag Cancel), w')
            \<and> casts w' = casts w @ map (\<lambda>m. (Str (m_content m), m, Inr Null)) ms
            \<and> inbox w' = rest
            \<and> (content_truthy (getText S w T_ended (ended (s_promptOptions S))
                   (max n (Suc r)) (last ms) (m_content (last ms)))
                \<longrightarrow> last (outbox w')
                    = (ViaChannel, getText S w T_ended (ended (s_promptOptions S))
                         (max n (Suc r)) (last ms) (m_content (last ms))))"
proof (induction ms arbitrary: w prev n)
  case Nil
  then show ?case by simp
next
  case (Cons m ms)
  have del: "\<forall>k rt c. \<exists>sent. s_deliver S k rt c = Inr sent \<and> m_id sent \<noteq> m_id m"
    using Cons.prems(1) by fastforce
  have inb: "inbox w = Incoming m # (map Incoming ms @ rest)"
    using Cons.prems(2) by simp
  have good: "m_author m = m_author (s_message S)"
    "\<not> (breakout (s_promptOptions S) = Some True \<and> h_parseCommand (a_handler (s_this S)) m)"
    "toLowerCase (m_content m) \<noteq> toLowerCase cw"
    "arg_cast (s_this S) (Str (m_content m)) m (view w) = Inr Null"
    using Cons.prems(4) by simp_all
  obtain w1 where t: "turn S w prev n
              = (if n \<le> r then Again m (Suc n) else Done (Inr (Flag Cancel)), w1)"
    and f: "casts w1 = casts w @ [(Str (m_content m), m, Inr Null)]"
      "inbox w1 = map Incoming ms @ rest" "args w1 = args w" "cells w1 = cells w"
    and out: "\<not> n \<le> r
               \<and> content_truthy (getText S w T_ended (ended (s_promptOptions S)) n m (m_content m))
             \<longrightarrow> last (outbox w1)
                 = (ViaChannel, getText S w T_ended (ended (s_promptOptions S)) n m (m_content m))"
    using turn_miss [OF assms del inb good, of prev n] by blast
  have v1: "view w1 = view w" using f by (simp add: view_def)
  show ?case
  proof (cases "n \<le> r")
    case True
    then have ne: "ms \<noteq> []" and len: "length ms = Suc (Suc r - Suc n)"
      using Cons.prems(3) by auto
    have del': "\<forall>k rt c. \<exists>sent. s_deliver S k rt c = Inr sent \<and> m_id sent \<notin> m_id ` set ms"
      using Cons.prems(1) by fastforce
    have good': "\<forall>x\<in>set ms. m_author x = m_author (s_message S)
            \<and> \<not> (breakout (s_promptOptions S) = Some True
                   \<and> h_parseCommand (a_handler (s_this S)) x)
            \<and> toLowerCase (m_content x) \<noteq> toLowerCase cw
            \<and> arg_cast (s_this S) (Str (m_content x)) x (view w1) = Inr Null"
      using Cons.prems(4) v1 by simp
    obtain w' where p: "promptOne S w1 m (Suc n) = (Inr (Flag Cancel), w')"
      and c: "casts w' = casts w1 @ map (\<lambda>m. (Str (m_content m), m, Inr Null)) ms"
      and i: "inbox w' = rest"
      and o: "content_truthy (getText S w1 T_ended (ended (s_promptOptions S))
                   (max (Suc n) (Suc r)) (last ms) (m_content (last ms)))
                \<longrightarrow> last (outbox w')
                    = (ViaChannel, getText S w1 T_ended (ended (s_promptOptions S))
                         (max (Suc n) (Suc r)) (last ms) (m_content (last ms)))"
      using Cons.IH [OF del' f(2) len good', of m] by blast
    have "promptOne S w prev n = (Inr (Flag Cancel), w')"
      using t True p by (simp add: promptOne_Again)
    moreover have "max (Suc n) (Suc r) = max n (Suc r)" using True by simp
    moreover have "last (m # ms) = last ms" using ne by simp
    ultimately show ?thesis
      using c i o f(1) getText_view [OF v1] by simp
  next
    case False
    then have e: "ms = []" using Cons.prems(3) by simp
    have "promptOne S w prev n = (Inr (Flag Cancel), w1)"
      using t False by (simp add: promptOne_Done)
    moreover have "max n (Suc r) = n" using False by simp
    ultimately show ?thesis
      using f out False e by simp
  qed
qed


lemma collect_entry_plain:
  assumes "\<not> s_isInfinite (collect_scope deliver A message commandInput u)"
  shows "collect_entry deliver A message commandInput u
       = addPrompt (m_channel message) (m_author message) u"
proof -
  have "s_values (collect_scope deliver A message commandInput u) = None"
    using assms by (simp add: collect_scope_def Let_def split: if_splits)
  then show ?thesis
    unfolding collect_entry_def Let_def by simp
qed

text \<open>
  C4, as the code has it. Take a session of \<^verbatim>\<open>collect\<close> that is not infinite, with
  \<^verbatim>\<open>retries\<close> = \<open>r\<close>, in which every send succeeds and the replies \<open>ms\<close> arrive in time, come
  from the author, are no command under \<^verbatim>\<open>breakout\<close>, are not the cancel word and miss the
  cast. The session starts at \<^verbatim>\<open>retryCount\<close> = 1 + \<^verbatim>\<open>additionalRetry\<close>, which is 1 without a
  seed phrase and 2 with one, so it casts exactly \<open>1 + (r - additionalRetry)\<close> replies
  (the subtraction stopping at 0): \<open>r + 1\<close> of them without a seed phrase, \<open>max 1 r\<close> with
  one. It then resolves the ended text, sends it if it is truthy, and returns \<^verbatim>\<open>Cancel\<close>.
\<close>

theorem retries_exhausted:
  assumes "S = collect_scope deliver A message commandInput u"
    and "h_commandUtil (a_handler A) \<longrightarrow> util u \<noteq> None"
    and "\<not> s_isInfinite S"
    and "retries (mergedOptions A) = Some r"
    and "cancelWord (mergedOptions A) = Some cw"
    and "\<forall>k rt c. \<exists>sent. deliver k rt c = Inr sent \<and> m_id sent \<notin> m_id ` set ms"
    and "inbox u = map Incoming ms @ rest"
    and "length ms = Suc (r - s_additionalRetry S)"
    and "\<forall>m\<in>set ms. m_author m = m_author message
            \<and> \<not> (breakout (mergedOptions A) = Some True \<and> h_parseCommand (a_handler A) m)
            \<and> toLowerCase (m_content m) \<noteq> toLowerCase cw
            \<and> arg_cast A (Str (m_content m)) m (view u) = Inr Null"
    and "E = getText S u T_ended (ended (mergedOptions A)) (max (1 + s_additionalRetry S) (Suc r))
               (last ms) (m_content (last ms))"
  shows "fst (collect deliver A message commandInput u) = Inr (Flag Cancel)
       \<and> casts (snd (collect deliver A message commandInput u))
           = casts u @ map (\<lambda>m. (Str (m_content m), m, Inr Null)) ms
       \<and> s_additionalRetry S = (if commandInput = [] then 0 else 1)
       \<and> (content_truthy E
            \<longrightarrow> last (outbox (snd (collect deliver A message commandInput u))) = (ViaChannel, E))"
proof -
  let ?e = "collect_entry deliver A message commandInput u"
  let ?n0 = "1 + s_additionalRetry S"
  have sel: "s_this S = A" "s_message S = message" "s_promptOptions S = mergedOptions A"
    "s_deliver S = deliver"
    using assms(1) by (simp_all add: collect_scope_sel)
  have e: "?e = addPrompt (m_channel message) (m_author message) u"
    using collect_entry_plain assms(1,3) by simp
  have ve: "view ?e = view u" "inbox ?e = map Incoming ms @ rest" "casts ?e = casts u"
    using assms(7) by (simp_all add: e addPrompt_def view_def)
  have len: "length ms = Suc (Suc r - ?n0)"
    using assms(8) by simp
  have del: "\<forall>k rt c. \<exists>sent. s_deliver S k rt c = Inr sent \<and> m_id sent \<notin> m_id ` set ms"
    using assms(6) sel by simp
  have good: "\<forall>m\<in>set ms. m_author m = m_author (s_message S)
            \<and> \<not> (breakout (s_promptOptions S) = Some True
                   \<and> h_parseCommand (a_handler (s_this S)) m)
            \<and> toLowerCase (m_content m) \<noteq> toLowerCase cw
            \<and> arg_cast (s_this S) (Str (m_content m)) m (view ?e) = Inr Null"
    using assms(9) sel ve by simp
  have r: "retries (s_promptOptions S) = Some r" "cancelWord (s_promptOptions S) = Some cw"
    using assms(4,5) sel by simp_all
  obtain w' where p: "promptOne S ?e message ?n0 = (Inr (Flag Cancel), w')"
    and c: "casts w' = casts ?e @ map (\<lambda>m. (Str (m_content m), m, Inr Null)) ms"
    and o: "content_truthy (getText S ?e T_ended (ended (s_promptOptions S))
                   (max ?n0 (Suc r)) (last ms) (m_content (last ms)))
                \<longrightarrow> last (outbox w')
                    = (ViaChannel, getText S ?e T_ended (ended (s_promptOptions S))
                         (max ?n0 (Suc r)) (last ms) (m_content (last ms)))"
    using miss_run [OF assms(3) r del ve(2) len good, of message] by blast
  have E: "getText S ?e T_ended (ended (s_promptOptions S)) (max ?n0 (Suc r)) (last ms)
             (m_content (last ms)) = E"
    using getText_view [OF ve(1)] assms(10) sel by simp
  have f: "fst (collect deliver A message commandInput u) = Inr (Flag Cancel)"
    using collect_fst [OF assms(2), of deliver message commandInput] p assms(1) by simp
  have k: "casts (snd (collect deliver A message commandInput u)) = casts w'"
    "outbox (snd (collect deliver A message commandInput u)) = outbox w'"
    using collect_fields(3,4) [of deliver A message commandInput u] p assms(1) by simp_all
  have x: "s_additionalRetry S = (if commandInput = [] then 0 else 1)"
    using assms(1) by (simp add: collect_scope_sel)
  show ?thesis
    using f k c ve(3) o E x by simp
qed


lemma demo_miss:
  "arg_cast demo_argument (Str ''a'') m as = Inr Null"
  "arg_cast demo_argument (Str ''b'') m as = Inr Null"
  "arg_cast demo_argument (Str ''x'') m as = Inr Null"
  by (simp_all add: demo_argument_def demo_defs cast_defs)

theorem retries_exhausted_witness:
  "fst (collect delivering demo_argument demo_message []
          (demo_world [user_says 1 ''a'', user_says 2 ''b'', user_says 3 ''c'']))
     = Inr (Flag Cancel)
   \<and> casts (snd (collect delivering demo_argument demo_message []
                   (demo_world [user_says 1 ''a'', user_says 2 ''b'', user_says 3 ''c''])))
     = [(Str ''a'', \<lparr>m_id = 1, m_author = 7, m_channel = 3, m_content = ''a''\<rparr>, Inr Null),
        (Str ''b'', \<lparr>m_id = 2, m_author = 7, m_channel = 3, m_content = ''b''\<rparr>, Inr Null)]
   \<and> last (outbox (snd (collect delivering demo_argument demo_message []
                   (demo_world [user_says 1 ''a'', user_says 2 ''b'', user_says 3 ''c'']))))
     = (ViaChannel, Text ''ended'')"
proof -
  let ?u = "demo_world [user_says 1 ''a'', user_says 2 ''b'', user_says 3 ''c'']"
  let ?S = "collect_scope delivering demo_argument demo_message [] ?u"
  let ?ms = "[\<lparr>m_id = 1, m_author = 7, m_channel = 3, m_content = ''a''\<rparr>,
              \<lparr>m_id = 2, m_author = 7, m_channel = 3, m_content = ''b''\<rparr>]"
  have wf: "h_commandUtil (a_handler demo_argument) \<longrightarrow> util ?u \<noteq> None"
    by (simp add: demo_argument_def new_Argument_def a_handler_def demo_command_def
        demo_handler_def)
  have ni: "\<not> s_isInfinite ?S"
    by (simp add: demo_scope)
  have r: "retries (mergedOptions demo_argument) = Some 1"
    and cw: "cancelWord (mergedOptions demo_argument) = Some ''cancel''"
    by (simp_all add: demo_merged demo_texts)
  have del: "\<forall>k rt c. \<exists>sent. delivering k rt c = Inr sent \<and> m_id sent \<notin> m_id ` set ?ms"
    by (simp add: delivering_def)
  have inb: "inbox ?u = map Incoming ?ms @ [user_says 3 ''c'']"
    by (simp add: demo_world_def user_says_def)
  have len: "length ?ms = Suc (1 - s_additionalRetry ?S)"
    by (simp add: demo_scope)
  have good: "\<forall>m\<in>set ?ms. m_author m = m_author demo_message
            \<and> \<not> (breakout (mergedOptions demo_argument) = Some True
                   \<and> h_parseCommand (a_handler demo_argument) m)
            \<and> toLowerCase (m_content m) \<noteq> toLowerCase ''cancel''
            \<and> arg_cast demo_argument (Str (m_content m)) m (view ?u) = Inr Null"
    by (simp add: demo_miss demo_message_def toLowerCase_def lower_char_def)
      (simp add: demo_argument_def new_Argument_def a_handler_def demo_command_def
        demo_handler_def)
  have E: "Text ''ended''
         = getText ?S ?u T_ended (ended (mergedOptions demo_argument))
             (max (1 + s_additionalRetry ?S) (Suc 1)) (last ?ms) (m_content (last ?ms))"
    unfolding demo_scope by (simp add: getText_def joined_def demo_merged demo_texts)
  have t: "content_truthy (Text ''ended'')"
    by simp
  show ?thesis
    using retries_exhausted [OF refl wf ni r cw del inb len good E] t
    by (simp add: demo_world_def)
qed

lemma demo_once_scope:
  "collect_scope deliver demo_once_argument demo_message ''x'' w
     = \<lparr>s_this = demo_once_argument, s_deliver = deliver, s_message = demo_message,
        s_commandInput = ''x'', s_promptOptions = demo_options\<lparr>retries := Some 0\<rparr>,
        s_isInfinite = False, s_additionalRetry = 1, s_values = None\<rparr>"
  unfolding collect_scope_def Let_def
  by (simp add: mergedOptions_def demo_once_argument_def new_Argument_def a_handler_def
      demo_command_def demo_handler_def assign_def override_def no_options_def
      demo_options_def)

text \<open>
  C4 as stated fails for a session seeded with the phrase \<^verbatim>\<open>'x'\<close>. With \<^verbatim>\<open>retries\<close> = 1 the
  session casts one reply, at \<^verbatim>\<open>retryCount\<close> 2, not two. With \<^verbatim>\<open>retries\<close> = 0 the session
  still casts one reply, which with the cast of the phrase in \<^verbatim>\<open>process\<close> makes two
  casts, not one.
\<close>

theorem seeded_session_casts_fewer:
  "retries (mergedOptions demo_argument) = Some 1
   \<and> fst (collect delivering demo_argument demo_message ''x''
            (demo_world [user_says 1 ''a'', user_says 2 ''b''])) = Inr (Flag Cancel)
   \<and> casts (snd (collect delivering demo_argument demo_message ''x''
                   (demo_world [user_says 1 ''a'', user_says 2 ''b''])))
       = [(Str ''a'', \<lparr>m_id = 1, m_author = 7, m_channel = 3, m_content = ''a''\<rparr>, Inr Null)]
   \<and> retries (mergedOptions demo_once_argument) = Some 0
   \<and> fst (process delivering demo_once_argument ''x'' demo_message
            (demo_world [user_says 1 ''a''])) = Inr (Flag Cancel)
   \<and> casts (snd (process delivering demo_once_argument ''x'' demo_message
                   (demo_world [user_says 1 ''a''])))
       = [(Str ''x'', demo_message, Inr Null),
          (Str ''a'', \<lparr>m_id = 1, m_author = 7, m_channel = 3, m_content = ''a''\<rparr>, Inr Null)]"
proof -
  let ?u = "demo_world [user_says 1 ''a'', user_says 2 ''b'']"
  let ?S = "collect_scope delivering demo_argument demo_message ''x'' ?u"
  let ?e = "collect_entry delivering demo_argument demo_message ''x'' ?u"
  let ?ca = "(Str ''a'', \<lparr>m_id = 1, m_author = 7, m_channel = 3, m_content = ''a''\<rparr>,
              Inr Null)"
  have wf: "h_commandUtil (a_handler demo_argument) \<longrightarrow> util ?u \<noteq> None"
    by (simp add: demo_argument_def new_Argument_def a_handler_def demo_command_def
        demo_handler_def)
  have sc: "?S = \<lparr>s_this = demo_argument, s_deliver = delivering, s_message = demo_message,
        s_commandInput = ''x'', s_promptOptions = demo_options, s_isInfinite = False,
        s_additionalRetry = 1, s_values = None\<rparr>"
    by (simp add: demo_seeded_scope)
  have en: "?e = addPrompt 3 7 ?u"
    by (simp add: demo_seeded_entry)
  have t: "fst (turn ?S ?e demo_message 2) = Done (Inr (Flag Cancel))"
    "casts (snd (turn ?S ?e demo_message 2)) = [?ca]"
    unfolding sc en
    by (simp_all add: turn_defs demo_texts demo_miss
        delivering_def addPrompt_def demo_world_def user_says_def demo_message_def
        toLowerCase_def lower_char_def is_void_def Let_def)
      (simp_all add: demo_argument_def new_Argument_def a_handler_def demo_command_def
        demo_handler_def)
  have n: "1 + s_additionalRetry ?S = 2"
    by (simp add: demo_seeded_scope)
  have p: "promptOne ?S ?e demo_message (1 + s_additionalRetry ?S)
      = (Inr (Flag Cancel), snd (turn ?S ?e demo_message 2))"
    unfolding n by (rule promptOne_fst_Done [OF t(1)])
  have a1: "fst (collect delivering demo_argument demo_message ''x'' ?u) = Inr (Flag Cancel)"
    using collect_fst [OF wf, of delivering demo_message "''x''"] p by simp
  have a2: "casts (snd (collect delivering demo_argument demo_message ''x'' ?u)) = [?ca]"
    unfolding collect_fields(3) p using t(2) by simp
  let ?v = "(demo_world [user_says 1 ''a''])\<lparr>casts := [(Str ''x'', demo_message, Inr Null)]\<rparr>"
  let ?T = "collect_scope delivering demo_once_argument demo_message ''x'' ?v"
  have once: "arg_cast demo_once_argument (Str ''x'') m as = Inr Null"
    "arg_cast demo_once_argument (Str ''a'') m as = Inr Null" for m as
    by (simp_all add: demo_once_argument_def demo_defs cast_defs)
  have pr: "process delivering demo_once_argument ''x'' demo_message
              (demo_world [user_says 1 ''a''])
          = collect delivering demo_once_argument demo_message ''x'' ?v"
    by (simp add: process_def trim_def is_space_def logged_cast_def once is_void_def Let_def
        demo_world_def)
      (simp add: demo_once_argument_def new_Argument_def marks_optional_def a_handler_def
        demo_command_def demo_handler_def demo_options_def no_options_def)
  have wf': "h_commandUtil (a_handler demo_once_argument) \<longrightarrow> util ?v \<noteq> None"
    by (simp add: demo_once_argument_def new_Argument_def a_handler_def demo_command_def
        demo_handler_def)
  have ent: "collect_entry delivering demo_once_argument demo_message ''x'' ?v
           = addPrompt (m_channel demo_message) (m_author demo_message) ?v"
    by (rule collect_entry_plain) (simp add: demo_once_scope)
  have t': "fst (turn ?T (addPrompt (m_channel demo_message) (m_author demo_message) ?v)
                 demo_message 2) = Done (Inr (Flag Cancel))"
    "casts (snd (turn ?T (addPrompt (m_channel demo_message) (m_author demo_message) ?v)
                 demo_message 2)) = [(Str ''x'', demo_message, Inr Null), ?ca]"
    unfolding demo_once_scope
    by (simp_all add: turn_defs once demo_options_def no_options_def
        delivering_def addPrompt_def demo_world_def user_says_def demo_message_def
        toLowerCase_def lower_char_def is_void_def Let_def)
      (simp_all add: demo_once_argument_def new_Argument_def a_handler_def demo_command_def
        demo_handler_def)
  have n': "1 + s_additionalRetry ?T = 2"
    by (simp add: demo_once_scope)
  have p': "promptOne ?T (collect_entry delivering demo_once_argument demo_message ''x'' ?v)
              demo_message (1 + s_additionalRetry ?T)
      = (Inr (Flag Cancel),
         snd (turn ?T (addPrompt (m_channel demo_message) (m_author demo_message) ?v)
                demo_message 2))"
    unfolding n' ent by (rule promptOne_fst_Done [OF t'(1)])
  have b1: "fst (process delivering demo_once_argument ''x'' demo_message
                   (demo_world [user_says 1 ''a''])) = Inr (Flag Cancel)"
    unfolding pr using collect_fst [OF wf', of delivering demo_message "''x''"] p' by simp
  have b2: "casts (snd (process delivering demo_once_argument ''x'' demo_message
                   (demo_world [user_says 1 ''a''])))
       = [(Str ''x'', demo_message, Inr Null), ?ca]"
    unfolding pr collect_fields(3) p' using t'(2) by simp
  have r1: "retries (mergedOptions demo_argument) = Some 1"
    by (simp add: demo_merged demo_texts)
  have r0: "retries (mergedOptions demo_once_argument) = Some 0"
    by (simp add: mergedOptions_def demo_once_argument_def new_Argument_def a_handler_def
      demo_command_def demo_handler_def assign_def override_def no_options_def
      demo_options_def)
  show ?thesis
    using r1 a1 a2 r0 b1 b2 by (intro conjI)
qed

end
